theory Spec2Isabelle
  imports Complex_Main
begin

section \<open>The forward render path of packages/core (components/renderpath/Forward.ts)\<close>

text \<open>
  A shallow embedding of \<^verbatim>\<open>ForwardRenderPath.render\<close>. The component managers injected
  into the class are the fields of a store; every call that \<^verbatim>\<open>render\<close> makes on the engine
  or on the material system is recorded, in order, in a list of calls; a JavaScript exception
  is a value that stops the traversal and keeps the calls recorded so far.
\<close>

subsection \<open>Components\<close>

type_synonym entity = nat
  \<comment> \<open>\<^verbatim>\<open>Entity\<close> is a number handed out by a counter.\<close>

type_synonym handle = nat
  \<comment> \<open>an opaque GPU object: buffer, bind group, pipeline layout, shader stages\<close>

type_synonym addr = nat
  \<comment> \<open>the identity of a uniform entry object\<close>

text \<open>
  Matrices and uniform data are values of a type \<open>'m\<close> with a multiplication:
  \<^verbatim>\<open>mat4.multiply(mat4.create(), a, b)\<close> of the gl-matrix library is \<open>a * b\<close>. Nothing
  below depends on how the product is computed.

  Modelled from the spec: the component classes are declared outside Forward.ts. Their
  records have the fields that \<^verbatim>\<open>render\<close> reads, with the types of section 3 of the
  specification. The accessors \<^verbatim>\<open>getViewTransform()\<close> and \<^verbatim>\<open>getPerspective()\<close> of the
  camera are read-only and cannot fail (section 4.2), so they are fields;
  \<^verbatim>\<open>getFrustum().extractFromVPMatrix(m)\<close> recomputes the planes of the frustum from
  \<open>m\<close>, so the frustum is represented by the matrix it was last extracted from.
\<close>

record SceneComponent =
  scene_camera :: entity
  meshes :: "entity list"

record 'm CameraComponent =
  viewTransform :: 'm
  perspective :: 'm
  frustum :: "'m option"
  \<comment> \<open>\<open>None\<close>: never extracted\<close>

record MeshComponent =
  mesh_material :: entity
  mesh_geometry :: entity

record 'm uniform =
  uniform_name :: string
  uniform_dirty :: bool
  uniform_data :: 'm

record MaterialComponent =
  material_dirty :: bool
  uniforms :: "addr list list"
  \<comment> \<open>the bindings, each the list of its uniform entries (objects, held by reference)\<close>
  uniformBindGroup :: handle
  pipelineLayout :: handle
  stageDescriptor :: handle
  primitiveTopology :: string

record attribute =
  buffer :: "handle option"
  arrayStride :: nat
  stepMode :: string
  attribute_attributes :: "string list"

record GeometryComponent =
  geometry_dirty :: bool
  attributes :: "attribute list"
  indices :: "nat list option"
  indicesBuffer :: "handle option"
  maxInstancedCount :: "int option"

record CullableComponent =
  visible :: bool

record 'm TransformComponent =
  worldTransform :: 'm

text \<open>
  Modelled from the spec: \<^verbatim>\<open>ComponentManager\<close> is declared outside Forward.ts. The seven
  component managers of the class are maps from entities to components, with
  \<^verbatim>\<open>getComponentByEntity\<close> as map application (section 6: a lookup that returns an
  optional value; \<open>None\<close> is \<^verbatim>\<open>undefined\<close>); the scene manager is traversed by
  \<^verbatim>\<open>forEach\<close> in insertion order (section 3), so it is a list. Uniform entries are objects
  that the material system mutates while \<^verbatim>\<open>render\<close> iterates over them: they live in an
  object store of their own and a material refers to them by address.
\<close>

record 'm store =
  scene :: "(entity \<times> SceneComponent) list"
  camera :: "entity \<rightharpoonup> 'm CameraComponent"
  mesh :: "entity \<rightharpoonup> MeshComponent"
  geometry :: "entity \<rightharpoonup> GeometryComponent"
  material :: "entity \<rightharpoonup> MaterialComponent"
  cullable :: "entity \<rightharpoonup> CullableComponent"
  transform :: "entity \<rightharpoonup> 'm TransformComponent"
  uniform_objs :: "addr \<Rightarrow> 'm uniform"

subsection \<open>Calls and outcomes\<close>

record color =
  color_r :: real
  color_g :: real
  color_b :: real
  color_a :: real

record vertex_buffer_layout =
  vb_arrayStride :: nat
  vb_stepMode :: string
  vb_attributes :: "string list"

record pipeline_descriptor =
  pd_layout :: handle
  pd_stages :: handle
  pd_primitiveTopology :: string
  pd_indexFormat :: "string option"
  pd_vertexBuffers :: "vertex_buffer_layout list"
  pd_cullMode :: string
  pd_depthWriteEnabled :: bool
  pd_depthCompare :: string
  pd_format :: string

record vertex_inputs =
  indexBuffer :: "handle option"
  indexOffset :: nat
  vertexStartSlot :: nat
  vertexBuffers :: "handle list"
  vertexOffsets :: "nat list"

datatype 'm call =
    Clear color bool bool bool
  | SetUniform entity string 'm bool
  | SetRenderBindGroups "handle list"
  | BindVertexInputs vertex_inputs
  | DrawElementsType string pipeline_descriptor nat nat int
  | DrawArraysType string pipeline_descriptor nat nat int

datatype error = TypeError | UnknownUniform

datatype 'm outcome =
  Outcome (state: "'m store") (calls: "'m call list") (raised: "error option")

definition ok :: "'m store \<Rightarrow> 'm outcome" where
  "ok s = Outcome s [] None"

definition throw :: "error \<Rightarrow> 'm store \<Rightarrow> 'm outcome" where
  "throw e s = Outcome s [] (Some e)"

definition emit :: "'m call \<Rightarrow> 'm store \<Rightarrow> 'm outcome" where
  "emit c s = Outcome s [c] None"

text \<open>Sequencing of statements: an exception skips what follows.\<close>

definition andThen :: "'m outcome \<Rightarrow> ('m store \<Rightarrow> 'm outcome) \<Rightarrow> 'm outcome" where
  "andThen x f =
     (case raised x of
        Some e \<Rightarrow> x
      | None \<Rightarrow>
          (case f (state x) of Outcome s' t' e' \<Rightarrow> Outcome s' (calls x @ t') e'))"

text \<open>\<^verbatim>\<open>xs.forEach(f)\<close>: the callback runs on the elements in order.\<close>

fun forEach :: "'x list \<Rightarrow> ('x \<Rightarrow> 'm store \<Rightarrow> 'm outcome) \<Rightarrow> 'm store \<Rightarrow> 'm outcome" where
  "forEach [] f s = ok s"
| "forEach (x # xs) f s = andThen (f x s) (forEach xs f)"

subsection \<open>The material system\<close>

record system =
  system_name :: string
  unknownUniformFatal :: bool
  \<comment> \<open>the choice that the specification leaves to the material system: whether a uniform
     name that the material does not declare is an error or is ignored\<close>

text \<open>
  Modelled from the spec: the constant \<^verbatim>\<open>IDENTIFIER.MaterialSystem\<close>, declared outside
  Forward.ts, is the well-known name under which the uniform synchronizer is registered.
\<close>

definition IDENTIFIER_MaterialSystem :: string where
  "IDENTIFIER_MaterialSystem = ''MaterialSystem''"

definition material_uniforms :: "'m store \<Rightarrow> entity \<Rightarrow> addr list" where
  "material_uniforms s ent =
     (case material s ent of None \<Rightarrow> [] | Some m \<Rightarrow> concat (uniforms m))"

definition declares :: "'m store \<Rightarrow> entity \<Rightarrow> string \<Rightarrow> bool" where
  "declares s ent n =
     list_ex (\<lambda>x. uniform_name (uniform_objs s x) = n) (material_uniforms s ent)"

definition clear_dirty :: "'m store \<Rightarrow> entity \<Rightarrow> string \<Rightarrow> 'm store" where
  "clear_dirty s ent n =
     s\<lparr>uniform_objs := (\<lambda>x.
          if x \<in> set (material_uniforms s ent) \<and> uniform_name (uniform_objs s x) = n
          then (uniform_objs s x)\<lparr>uniform_dirty := False\<rparr>
          else uniform_objs s x)\<rparr>"

text \<open>
  Modelled from the spec: \<^verbatim>\<open>MaterialSystem.setUniform\<close> is declared in
  components/material/System.ts, which is not among the sources. Section 4.4 of the
  specification: it writes the data under the name into the material's GPU-visible storage
  (here: the recorded \<open>SetUniform\<close> call); when \<^verbatim>\<open>isCustomValue\<close> is true it clears the dirty
  flag of the uniform of that name on the material's binding entries; it fails with
  \<open>UnknownUniform\<close> when the name matches no declared binding slot, the system deciding
  whether that is fatal or a silent no-op.
\<close>

definition setUniform ::
  "system \<Rightarrow> entity \<Rightarrow> string \<Rightarrow> 'm \<Rightarrow> bool \<Rightarrow> 'm store \<Rightarrow> 'm outcome" where
  "setUniform sys ent n d isCustomValue s =
     (if \<not> declares s ent n
      then Outcome s [SetUniform ent n d isCustomValue]
             (if unknownUniformFatal sys then Some UnknownUniform else None)
      else Outcome (if isCustomValue then clear_dirty s ent n else s)
             [SetUniform ent n d isCustomValue] None)"

subsection \<open>render\<close>

text \<open>
  \<^verbatim>\<open>materialSystem.setUniform(engine, ...)\<close> where \<^verbatim>\<open>materialSystem\<close> is the result of
  \<^verbatim>\<open>systems.find\<close>: calling a method of \<^verbatim>\<open>undefined\<close> is a TypeError.
\<close>

definition materialSystem_setUniform ::
  "system option \<Rightarrow> entity \<Rightarrow> string \<Rightarrow> 'm \<Rightarrow> bool \<Rightarrow> 'm store \<Rightarrow> 'm outcome" where
  "materialSystem_setUniform materialSystem ent n d isCustomValue s =
     (case materialSystem of
        None \<Rightarrow> throw TypeError s
      | Some sys \<Rightarrow> setUniform sys ent n d isCustomValue s)"

text \<open>The template literals \<^verbatim>\<open>`render-${meshEntity}-elements`\<close> and \<^verbatim>\<open>-arrays\<close>.\<close>

definition digit :: "nat \<Rightarrow> char" where
  "digit n = char_of (48 + n)"

fun decimal :: "nat \<Rightarrow> string" where
  "decimal n = (if n < 10 then [digit n] else decimal (n div 10) @ [digit (n mod 10)])"

declare decimal.simps [simp del]

definition elements_label :: "entity \<Rightarrow> string" where
  "elements_label meshEntity = ''render-'' @ decimal meshEntity @ ''-elements''"

definition arrays_label :: "entity \<Rightarrow> string" where
  "arrays_label meshEntity = ''render-'' @ decimal meshEntity @ ''-arrays''"

definition vertex_layouts :: "GeometryComponent \<Rightarrow> vertex_buffer_layout list" where
  "vertex_layouts geo =
     map (\<lambda>attr. \<lparr>vb_arrayStride = arrayStride attr, vb_stepMode = stepMode attr,
                  vb_attributes = attribute_attributes attr\<rparr>) (attributes geo)"

definition descriptor ::
  "MaterialComponent \<Rightarrow> GeometryComponent \<Rightarrow> string option \<Rightarrow> pipeline_descriptor" where
  "descriptor mat geo fmt =
     \<lparr>pd_layout = pipelineLayout mat, pd_stages = stageDescriptor mat,
      pd_primitiveTopology = primitiveTopology mat,
      pd_indexFormat = fmt, pd_vertexBuffers = vertex_layouts geo,
      pd_cullMode = ''back'', pd_depthWriteEnabled = True, pd_depthCompare = ''less'',
      pd_format = ''depth24plus-stencil8''\<rparr>"

text \<open>\<^verbatim>\<open>geometry.maxInstancedCount || 1\<close>: \<^verbatim>\<open>undefined\<close> and 0 are falsy.\<close>

definition instanceCount :: "GeometryComponent \<Rightarrow> int" where
  "instanceCount geo =
     (case maxInstancedCount geo of None \<Rightarrow> 1 | Some k \<Rightarrow> if k = 0 then 1 else k)"

text \<open>
  \<^verbatim>\<open>geometry.attributes.map((attribute) => attribute.buffer!).filter((a) => a)\<close>: the
  buffers that are set, in the order of the attributes.
\<close>

definition attribute_buffers :: "GeometryComponent \<Rightarrow> handle list" where
  "attribute_buffers geo = List.map_filter buffer (attributes geo)"

definition bindVertexInputs :: "GeometryComponent \<Rightarrow> 'm store \<Rightarrow> 'm outcome" where
  "bindVertexInputs geo s =
     (if attributes geo \<noteq> []
      then emit (BindVertexInputs
             \<lparr>indexBuffer = indicesBuffer geo, indexOffset = 0, vertexStartSlot = 0,
              vertexBuffers = attribute_buffers geo,
              vertexOffsets = map (\<lambda>_. 0) (attribute_buffers geo)\<rparr>) s
      else ok s)"

definition draw ::
  "entity \<Rightarrow> MaterialComponent \<Rightarrow> GeometryComponent \<Rightarrow> 'm call" where
  "draw meshEntity mat geo =
     (case indices geo of
        Some ixs \<Rightarrow>
          if ixs \<noteq> []
          then DrawElementsType (elements_label meshEntity)
                 (descriptor mat geo (Some ''uint32'')) 0 (length ixs) (instanceCount geo)
          else DrawArraysType (arrays_label meshEntity)
                 (descriptor mat geo None) 0 3 (instanceCount geo)
      | None \<Rightarrow>
          DrawArraysType (arrays_label meshEntity)
            (descriptor mat geo None) 0 3 (instanceCount geo))"

text \<open>
  Lines 78 to 108: with a Transform component, the two camera uniforms are pushed, without the
  custom-value marker.
\<close>

definition update_camera_uniforms ::
  "system option \<Rightarrow> ('m::times) CameraComponent \<Rightarrow> 'm \<Rightarrow> entity \<Rightarrow> entity \<Rightarrow>
     'm store \<Rightarrow> 'm outcome" where
  "update_camera_uniforms materialSystem cam viewMatrix meshEntity ent s =
     (case transform s meshEntity of
        None \<Rightarrow> ok s
      | Some tr \<Rightarrow>
          andThen
            (materialSystem_setUniform materialSystem ent
               ''projectionMatrix'' (perspective cam) False s)
            (materialSystem_setUniform materialSystem ent
               ''modelViewMatrix'' (viewMatrix * worldTransform tr) False))"

text \<open>
  Lines 110 to 124. The body of \<^verbatim>\<open>binding.uniforms.forEach\<close> reads the dirty flag from
  the object when the iteration reaches it.
\<close>

definition update_uniform :: "system option \<Rightarrow> entity \<Rightarrow> addr \<Rightarrow> 'm store \<Rightarrow> 'm outcome" where
  "update_uniform materialSystem ent x s =
     (if uniform_dirty (uniform_objs s x)
      then materialSystem_setUniform materialSystem ent
             (uniform_name (uniform_objs s x)) (uniform_data (uniform_objs s x)) True s
      else ok s)"

definition update_uniforms ::
  "system option \<Rightarrow> entity \<Rightarrow> MaterialComponent \<Rightarrow> 'm store \<Rightarrow> 'm outcome" where
  "update_uniforms materialSystem ent mat s =
     forEach (uniforms mat) (\<lambda>binding. forEach binding (update_uniform materialSystem ent)) s"

text \<open>Lines 77 to 201: what the callback does for a mesh that passed the two checks.\<close>

definition draw_mesh ::
  "system option \<Rightarrow> ('m::times) CameraComponent \<Rightarrow> 'm \<Rightarrow> entity \<Rightarrow> MeshComponent \<Rightarrow>
     MaterialComponent \<Rightarrow> GeometryComponent \<Rightarrow> 'm store \<Rightarrow> 'm outcome" where
  "draw_mesh materialSystem cam viewMatrix meshEntity m mat geo s =
     andThen (andThen (andThen (andThen
       (update_camera_uniforms materialSystem cam viewMatrix meshEntity (mesh_material m) s)
       (update_uniforms materialSystem (mesh_material m) mat))
       (emit (SetRenderBindGroups [uniformBindGroup mat])))
       (bindVertexInputs geo))
       (emit (draw meshEntity mat geo))"

text \<open>
  The callback of \<^verbatim>\<open>scene.meshes.forEach\<close> (lines 63 to 202), with the camera and the view
  matrix of the enclosing scene. The non-null assertions of lines 69 to 71 do nothing at run
  time: reading \<^verbatim>\<open>mesh.material\<close>, \<^verbatim>\<open>material.dirty\<close> or \<^verbatim>\<open>geometry.dirty\<close> on
  \<^verbatim>\<open>undefined\<close> is a TypeError, and \<^verbatim>\<open>||\<close> reads \<^verbatim>\<open>geometry.dirty\<close> only when the
  material is not dirty.
\<close>

definition visible_mesh :: "'m store \<Rightarrow> entity \<Rightarrow> bool" where
  "visible_mesh s meshEntity =
     (case cullable s meshEntity of None \<Rightarrow> False | Some c \<Rightarrow> visible c)"

definition render_ready ::
  "system option \<Rightarrow> ('m::times) CameraComponent \<Rightarrow> 'm \<Rightarrow> entity \<Rightarrow> MeshComponent \<Rightarrow>
     'm store \<Rightarrow> 'm outcome" where
  "render_ready materialSystem cam viewMatrix meshEntity m s =
     (case material s (mesh_material m) of
        None \<Rightarrow> throw TypeError s
      | Some mat \<Rightarrow>
          if material_dirty mat then ok s
          else (case geometry s (mesh_geometry m) of
                  None \<Rightarrow> throw TypeError s
                | Some geo \<Rightarrow>
                    if geometry_dirty geo then ok s
                    else draw_mesh materialSystem cam viewMatrix meshEntity m mat geo s))"

definition render_mesh ::
  "system option \<Rightarrow> ('m::times) CameraComponent \<Rightarrow> 'm \<Rightarrow> entity \<Rightarrow> 'm store \<Rightarrow> 'm outcome" where
  "render_mesh materialSystem cam viewMatrix meshEntity s =
     (if \<not> visible_mesh s meshEntity then ok s
      else (case mesh s meshEntity of
              None \<Rightarrow> throw TypeError s
            | Some m \<Rightarrow> render_ready materialSystem cam viewMatrix meshEntity m s))"

text \<open>
  The callback of \<^verbatim>\<open>this.scene.forEach\<close> (lines 51 to 203): a scene whose camera does not
  resolve is a TypeError at \<^verbatim>\<open>camera.getViewTransform()\<close>. Line 61 stores, in the camera
  component, the frustum extracted from the view-projection matrix.
\<close>

definition extractFromVPMatrix :: "entity \<Rightarrow> 'm CameraComponent \<Rightarrow> 'm \<Rightarrow> 'm store \<Rightarrow> 'm store" where
  "extractFromVPMatrix ent cam viewProjectionMatrix s =
     s\<lparr>camera := (camera s)(ent \<mapsto> cam\<lparr>frustum := Some viewProjectionMatrix\<rparr>)\<rparr>"

definition render_scene ::
  "system option \<Rightarrow> entity \<times> SceneComponent \<Rightarrow> ('m::times) store \<Rightarrow> 'm outcome" where
  "render_scene materialSystem sc s =
     (case camera s (scene_camera (snd sc)) of
        None \<Rightarrow> throw TypeError s
      | Some cam \<Rightarrow>
          forEach (meshes (snd sc))
            (render_mesh materialSystem cam (viewTransform cam))
            (extractFromVPMatrix (scene_camera (snd sc)) cam
               (perspective cam * viewTransform cam) s))"

definition black :: color where
  "black = \<lparr>color_r = 0, color_g = 0, color_b = 0, color_a = 1\<rparr>"

definition find_materialSystem :: "system list \<Rightarrow> system option" where
  "find_materialSystem systems =
     find (\<lambda>sys. system_name sys = IDENTIFIER_MaterialSystem) systems"

definition render :: "system list \<Rightarrow> ('m::times) store \<Rightarrow> 'm outcome" where
  "render systems s =
     andThen (emit (Clear black True True True) s)
       (forEach (scene s) (render_scene (find_materialSystem systems)))"

subsection \<open>Notions used in the statements\<close>

text \<open>Kinds of calls. A draw call is attributed to a mesh by its label.\<close>

fun is_clear :: "'m call \<Rightarrow> bool" where
  "is_clear (Clear _ _ _ _) = True"
| "is_clear _ = False"

fun is_draw :: "'m call \<Rightarrow> bool" where
  "is_draw (DrawElementsType _ _ _ _ _) = True"
| "is_draw (DrawArraysType _ _ _ _ _) = True"
| "is_draw _ = False"

fun is_draw_of :: "entity \<Rightarrow> 'm call \<Rightarrow> bool" where
  "is_draw_of e (DrawElementsType l _ _ _ _) = (l = elements_label e)"
| "is_draw_of e (DrawArraysType l _ _ _ _) = (l = arrays_label e)"
| "is_draw_of e _ = False"

fun instances_of :: "'m call \<Rightarrow> int option" where
  "instances_of (DrawElementsType _ _ _ _ i) = Some i"
| "instances_of (DrawArraysType _ _ _ _ i) = Some i"
| "instances_of _ = None"

fun is_bindVertexInputs :: "'m call \<Rightarrow> bool" where
  "is_bindVertexInputs (BindVertexInputs _) = True"
| "is_bindVertexInputs _ = False"

text \<open>
  Pushes: those with the custom-value marker (line 120), those without (the camera uniforms
  of lines 93 to 107), and those of a given name on a given material.
\<close>

fun custom_push :: "'m call \<Rightarrow> bool" where
  "custom_push (SetUniform _ _ _ isCustomValue) = isCustomValue"
| "custom_push _ = False"

fun camera_push :: "'m call \<Rightarrow> bool" where
  "camera_push (SetUniform _ _ _ isCustomValue) = (\<not> isCustomValue)"
| "camera_push _ = False"

fun is_push :: "entity \<Rightarrow> string \<Rightarrow> 'm call \<Rightarrow> bool" where
  "is_push ent n (SetUniform ent' n' _ _) = (ent' = ent \<and> n' = n)"
| "is_push ent n _ = False"

text \<open>
  A push for the uniform entry \<open>x\<close>: a push of the name of the entry on a material whose
  binding entries hold the entry.
\<close>

fun is_push_of :: "'m store \<Rightarrow> addr \<Rightarrow> 'm call \<Rightarrow> bool" where
  "is_push_of s x (SetUniform ent n _ _) =
     (x \<in> set (material_uniforms s ent) \<and> n = uniform_name (uniform_objs s x))"
| "is_push_of s x _ = False"

text \<open>
  The push with the custom-value marker that the loop of lines 111 to 124 makes under the name
  \<open>n\<close> for a material with a material system in place: there is one if a binding entry of
  that name is dirty, and it carries the data of the first such entry.
\<close>

definition marked_push ::
  "'m store \<Rightarrow> entity \<Rightarrow> MaterialComponent \<Rightarrow> string \<Rightarrow> 'm call list" where
  "marked_push s ent mat n =
     (case find (\<lambda>y. uniform_name (uniform_objs s y) = n \<and> uniform_dirty (uniform_objs s y))
             (concat (uniforms mat)) of
        None \<Rightarrow> []
      | Some y \<Rightarrow> [SetUniform ent n (uniform_data (uniform_objs s y)) True])"

text \<open>The mesh entities that a frame visits, in order, with repetitions.\<close>

definition frame_meshes :: "'m store \<Rightarrow> entity list" where
  "frame_meshes s = concat (map (\<lambda>sc. meshes (snd sc)) (scene s))"

text \<open>A mesh passes the visibility check and the readiness check.\<close>

definition drawable ::
  "'m store \<Rightarrow> entity \<Rightarrow> MeshComponent \<Rightarrow> MaterialComponent \<Rightarrow> GeometryComponent \<Rightarrow> bool" where
  "drawable s e m mat geo \<longleftrightarrow>
     visible_mesh s e \<and> mesh s e = Some m \<and>
     material s (mesh_material m) = Some mat \<and> \<not> material_dirty mat \<and>
     geometry s (mesh_geometry m) = Some geo \<and> \<not> geometry_dirty geo"

subsection \<open>Notions used in the proofs\<close>

text \<open>
  What a frame may change: the frustum of a camera and the dirty flags of uniform entries,
  and those only from dirty to clean.
\<close>

definition dirty :: "'m store \<Rightarrow> addr \<Rightarrow> bool" where
  "dirty s x = uniform_dirty (uniform_objs s x)"

definition same_static :: "'m store \<Rightarrow> 'm store \<Rightarrow> bool" where
  "same_static s s' \<longleftrightarrow>
     scene s' = scene s \<and> mesh s' = mesh s \<and> geometry s' = geometry s \<and>
     material s' = material s \<and> cullable s' = cullable s \<and> transform s' = transform s \<and>
     (\<forall>e. map_option (\<lambda>c. (viewTransform c, perspective c)) (camera s' e) =
          map_option (\<lambda>c. (viewTransform c, perspective c)) (camera s e)) \<and>
     (\<forall>x. uniform_name (uniform_objs s' x) = uniform_name (uniform_objs s x) \<and>
          uniform_data (uniform_objs s' x) = uniform_data (uniform_objs s x))"

definition cleared :: "'m store \<Rightarrow> 'm store \<Rightarrow> bool" where
  "cleared s s' \<longleftrightarrow> same_static s s' \<and> (\<forall>x. dirty s' x \<longrightarrow> dirty s x)"

definition clears :: "('m store \<Rightarrow> 'm outcome) \<Rightarrow> bool" where
  "clears f \<longleftrightarrow> (\<forall>s. cleared s (state (f s)))"

text \<open>
  The store \<open>sb\<close> in which a frame is run again, against a store \<open>sa\<close> of the first run:
  nothing but flags and frustums differ, no flag is set in \<open>sb\<close> that is clean in \<open>sa\<close>, and
  without a material system the flags are the same.
\<close>

definition replay :: "system option \<Rightarrow> 'm store \<Rightarrow> 'm store \<Rightarrow> bool" where
  "replay materialSystem sa sb \<longleftrightarrow>
     cleared sa sb \<and> (materialSystem = None \<longrightarrow> (\<forall>x. dirty sa x \<longrightarrow> dirty sb x))"

text \<open>
  A uniform entry \<open>x\<close> that a push identifies: in every material that holds it, no other
  entry has its name, and its name is not one of the two camera uniforms. A mesh uses the
  entry when it passes the two checks and its material holds the entry.
\<close>

definition tracked :: "'m store \<Rightarrow> addr \<Rightarrow> bool" where
  "tracked s x \<longleftrightarrow>
     (\<forall>ent. x \<in> set (material_uniforms s ent) \<longrightarrow>
        (\<forall>y \<in> set (material_uniforms s ent).
           uniform_name (uniform_objs s y) = uniform_name (uniform_objs s x) \<longrightarrow> y = x)) \<and>
     uniform_name (uniform_objs s x) \<noteq> ''projectionMatrix'' \<and>
     uniform_name (uniform_objs s x) \<noteq> ''modelViewMatrix''"

definition uses :: "'m store \<Rightarrow> addr \<Rightarrow> entity \<Rightarrow> bool" where
  "uses s x e \<longleftrightarrow>
     (\<exists>m mat geo. drawable s e m mat geo \<and> x \<in> set (material_uniforms s (mesh_material m)))"

definition drawn_with :: "'m store \<Rightarrow> addr \<Rightarrow> 'm call \<Rightarrow> bool" where
  "drawn_with s x c \<longleftrightarrow> (\<exists>e. is_draw_of e c \<and> uses s x e)"

definition the_push :: "'m store \<Rightarrow> entity \<Rightarrow> addr \<Rightarrow> 'm call" where
  "the_push s ent x =
     SetUniform ent (uniform_name (uniform_objs s x)) (uniform_data (uniform_objs s x)) True"

text \<open>A list of calls that holds one call, of a given kind, under a condition and none otherwise.\<close>

definition once_if :: "bool \<Rightarrow> ('c \<Rightarrow> bool) \<Rightarrow> 'c list \<Rightarrow> bool" where
  "once_if b R cs \<longleftrightarrow> (if b then \<exists>p. R p \<and> cs = [p] else cs = [])"

subsection \<open>A concrete frame\<close>

text \<open>
  One scene with one camera and six meshes over integer data: mesh 2 is drawn indexed and has
  a Transform, mesh 3 is drawn non-indexed and has none, mesh 4 is culled, mesh 5 has no
  Cullable component, the material of mesh 6 and the geometry of mesh 7 are dirty. Material 10
  declares the two camera uniforms, a dirty custom uniform and a clean one.
\<close>

definition demo_uniforms :: "addr \<Rightarrow> int uniform" where
  "demo_uniforms x =
     (if x = 0 then \<lparr>uniform_name = ''projectionMatrix'', uniform_dirty = False, uniform_data = 0\<rparr>
      else if x = 1 then \<lparr>uniform_name = ''modelViewMatrix'', uniform_dirty = False, uniform_data = 0\<rparr>
      else if x = 3 then \<lparr>uniform_name = ''opacity'', uniform_dirty = False, uniform_data = 1\<rparr>
      else \<lparr>uniform_name = ''color'', uniform_dirty = True, uniform_data = 9\<rparr>)"

definition demo_material :: MaterialComponent where
  "demo_material =
     \<lparr>material_dirty = False, uniforms = [[0, 1], [2, 3]], uniformBindGroup = 200,
      pipelineLayout = 201, stageDescriptor = 202, primitiveTopology = ''triangle-list''\<rparr>"

definition demo_indexed :: GeometryComponent where
  "demo_indexed =
     \<lparr>geometry_dirty = False,
      attributes =
        [\<lparr>buffer = Some 100, arrayStride = 12, stepMode = ''vertex'',
          attribute_attributes = [''float3'']\<rparr>,
         \<lparr>buffer = None, arrayStride = 8, stepMode = ''vertex'',
          attribute_attributes = [''float2'']\<rparr>],
      indices = Some [0, 1, 2, 2, 1, 3], indicesBuffer = Some 101,
      maxInstancedCount = None\<rparr>"

definition demo_triangle :: GeometryComponent where
  "demo_triangle =
     \<lparr>geometry_dirty = False, attributes = [], indices = None, indicesBuffer = None,
      maxInstancedCount = Some 4\<rparr>"

definition demo_camera :: "int CameraComponent" where
  "demo_camera = \<lparr>viewTransform = 5, perspective = 7, frustum = None\<rparr>"

definition demo_store :: "int store" where
  "demo_store =
     \<lparr>scene = [(0, \<lparr>scene_camera = 1, meshes = [2, 3, 4, 5, 6, 7]\<rparr>)],
      camera = [1 \<mapsto> demo_camera],
      mesh = [2 \<mapsto> \<lparr>mesh_material = 10, mesh_geometry = 20\<rparr>,
              3 \<mapsto> \<lparr>mesh_material = 10, mesh_geometry = 21\<rparr>,
              4 \<mapsto> \<lparr>mesh_material = 10, mesh_geometry = 20\<rparr>,
              5 \<mapsto> \<lparr>mesh_material = 10, mesh_geometry = 20\<rparr>,
              6 \<mapsto> \<lparr>mesh_material = 11, mesh_geometry = 20\<rparr>,
              7 \<mapsto> \<lparr>mesh_material = 10, mesh_geometry = 22\<rparr>],
      geometry = [20 \<mapsto> demo_indexed, 21 \<mapsto> demo_triangle,
                  22 \<mapsto> demo_triangle\<lparr>geometry_dirty := True\<rparr>],
      material = [10 \<mapsto> demo_material,
                  11 \<mapsto> demo_material\<lparr>material_dirty := True, uniforms := []\<rparr>],
      cullable = [2 \<mapsto> \<lparr>visible = True\<rparr>, 3 \<mapsto> \<lparr>visible = True\<rparr>,
                  4 \<mapsto> \<lparr>visible = False\<rparr>, 6 \<mapsto> \<lparr>visible = True\<rparr>,
                  7 \<mapsto> \<lparr>visible = True\<rparr>],
      transform = [2 \<mapsto> \<lparr>worldTransform = 3\<rparr>],
      uniform_objs = demo_uniforms\<rparr>"

definition demo_systems :: "system list" where
  "demo_systems = [\<lparr>system_name = ''MaterialSystem'', unknownUniformFatal = True\<rparr>]"

definition demo_arrays_draw :: "int call" where
  "demo_arrays_draw =
     DrawArraysType ''render-3-arrays'' (descriptor demo_material demo_triangle None) 0 3 4"

text \<open>
  Variants of the frame: a visible mesh 8 whose material reference resolves to nothing, listed
  before mesh 2; mesh 3 alone; mesh 3 alone with a geometry whose only attribute has no
  buffer.
\<close>

definition dangling_store :: "int store" where
  "dangling_store =
     demo_store\<lparr>scene := [(0, \<lparr>scene_camera = 1, meshes = [8, 2]\<rparr>)],
       mesh := (mesh demo_store)(8 \<mapsto> \<lparr>mesh_material = 99, mesh_geometry = 20\<rparr>),
       cullable := (cullable demo_store)(8 \<mapsto> \<lparr>visible = True\<rparr>)\<rparr>"

definition untransformed_store :: "int store" where
  "untransformed_store = demo_store\<lparr>scene := [(0, \<lparr>scene_camera = 1, meshes = [3]\<rparr>)]\<rparr>"

definition unbuffered :: GeometryComponent where
  "unbuffered =
     demo_triangle\<lparr>attributes :=
       [\<lparr>buffer = None, arrayStride = 12, stepMode = ''vertex'',
         attribute_attributes = [''float3'']\<rparr>]\<rparr>"

definition unbuffered_store :: "int store" where
  "unbuffered_store =
     demo_store\<lparr>scene := [(0, \<lparr>scene_camera = 1, meshes = [3]\<rparr>)],
       geometry := (geometry demo_store)(21 \<mapsto> unbuffered)\<rparr>"

text \<open>
  Further variants: mesh 3 listed twice; mesh 2 alone, with a dirty binding entry named
  \<^verbatim>\<open>projectionMatrix\<close>; mesh 3 alone, with a material whose binding holds three entries
  named \<^verbatim>\<open>color\<close>, two dirty ones with different data and a clean one; mesh 2 followed
  by the mesh 8 whose material reference resolves to nothing.
\<close>

definition twice_store :: "int store" where
  "twice_store = demo_store\<lparr>scene := [(0, \<lparr>scene_camera = 1, meshes = [3, 3]\<rparr>)]\<rparr>"

definition stale_uniforms :: "addr \<Rightarrow> int uniform" where
  "stale_uniforms x =
     (if x = 0 then \<lparr>uniform_name = ''projectionMatrix'', uniform_dirty = True, uniform_data = 0\<rparr>
      else demo_uniforms x)"

definition stale_store :: "int store" where
  "stale_store =
     demo_store\<lparr>scene := [(0, \<lparr>scene_camera = 1, meshes = [2]\<rparr>)],
       uniform_objs := stale_uniforms\<rparr>"

definition twin_uniforms :: "addr \<Rightarrow> int uniform" where
  "twin_uniforms x =
     (if x = 4 then \<lparr>uniform_name = ''color'', uniform_dirty = True, uniform_data = 8\<rparr>
      else if x = 5 then \<lparr>uniform_name = ''color'', uniform_dirty = False, uniform_data = 8\<rparr>
      else demo_uniforms x)"

definition twin_material :: MaterialComponent where
  "twin_material = demo_material\<lparr>uniforms := [[2, 4, 5]]\<rparr>"

definition twin_store :: "int store" where
  "twin_store =
     demo_store\<lparr>scene := [(0, \<lparr>scene_camera = 1, meshes = [3]\<rparr>)],
       material := [10 \<mapsto> twin_material],
       uniform_objs := twin_uniforms\<rparr>"

definition late_store :: "int store" where
  "late_store =
     demo_store\<lparr>scene := [(0, \<lparr>scene_camera = 1, meshes = [2, 8]\<rparr>)],
       mesh := (mesh demo_store)(8 \<mapsto> \<lparr>mesh_material = 99, mesh_geometry = 20\<rparr>),
       cullable := (cullable demo_store)(8 \<mapsto> \<lparr>visible = True\<rparr>)\<rparr>"

section \<open>Proofs\<close>

subsection \<open>Outcomes\<close>

lemma andThen_Outcome [simp]:
  "andThen (Outcome s t None) f = Outcome (state (f s)) (t @ calls (f s)) (raised (f s))"
  "andThen (Outcome s t (Some e)) f = Outcome s t (Some e)"
  by (simp_all add: andThen_def split: outcome.split)

lemma andThen_ok [simp]: "andThen (ok s) f = f s"
  by (simp add: ok_def)

lemma andThen_throw [simp]: "andThen (throw e s) f = throw e s"
  by (simp add: throw_def)

lemma ok_sel [simp]: "state (ok s) = s" "calls (ok s) = []" "raised (ok s) = None"
  by (simp_all add: ok_def)

lemma throw_sel [simp]:
  "state (throw e s) = s" "calls (throw e s) = []" "raised (throw e s) = Some e"
  by (simp_all add: throw_def)

lemma emit_sel [simp]: "state (emit c s) = s" "calls (emit c s) = [c]" "raised (emit c s) = None"
  by (simp_all add: emit_def)

lemma state_andThen:
  "state (andThen x f) = (if raised x = None then state (f (state x)) else state x)"
  by (cases x) (auto simp: andThen_def split: outcome.split)

lemma calls_andThen:
  "calls (andThen x f) = (if raised x = None then calls x @ calls (f (state x)) else calls x)"
  by (cases x) (auto simp: andThen_def split: outcome.split)

lemma raised_andThen:
  "raised (andThen x f) = (if raised x = None then raised (f (state x)) else raised x)"
  by (cases x) (auto simp: andThen_def split: outcome.split)

lemma raised_andThen_None:
  "raised (andThen x f) = None \<longleftrightarrow> raised x = None \<and> raised (f (state x)) = None"
  by (auto simp: raised_andThen)

lemma andThen_assoc: "andThen (andThen x f) g = andThen x (\<lambda>s. andThen (f s) g)"
  by (rule outcome.expand) (simp add: state_andThen calls_andThen raised_andThen)

lemma forEach_append: "forEach (xs @ ys) f s = andThen (forEach xs f s) (forEach ys f)"
proof (induction xs arbitrary: s)
  case Nil
  show ?case by simp
next
  case (Cons x xs)
  then have "forEach (xs @ ys) f = (\<lambda>s. andThen (forEach xs f s) (forEach ys f))"
    by (intro ext)
  then show ?case by (simp add: andThen_assoc)
qed

lemma forEach_concat: "forEach (concat xss) f s = forEach xss (\<lambda>xs. forEach xs f) s"
proof (induction xss arbitrary: s)
  case Nil
  show ?case by simp
next
  case (Cons xs xss)
  then have "forEach (concat xss) f = forEach xss (\<lambda>xs. forEach xs f)"
    by (intro ext)
  then show ?case by (simp add: forEach_append)
qed

lemma forEach_invariant:
  assumes "I s" and "\<And>x s. x \<in> set xs \<Longrightarrow> I s \<Longrightarrow> I (state (f x s))"
  shows "I (state (forEach xs f s))"
  using assms by (induction xs arbitrary: s) (simp_all add: state_andThen)

lemma forEach_calls_all:
  assumes "I s"
    and "\<And>x s. x \<in> set xs \<Longrightarrow> I s \<Longrightarrow> I (state (f x s))"
    and "\<And>x s c. x \<in> set xs \<Longrightarrow> I s \<Longrightarrow> c \<in> set (calls (f x s)) \<Longrightarrow> P c"
  shows "\<forall>c \<in> set (calls (forEach xs f s)). P c"
  using assms
proof (induction xs arbitrary: s)
  case Nil
  then show ?case by simp
next
  case (Cons x xs)
  have here: "\<forall>c \<in> set (calls (f x s)). P c"
    using Cons.prems(1) Cons.prems(3) [of x s] by simp
  have "I (state (f x s))"
    by (rule Cons.prems(2)) (simp_all add: Cons.prems(1))
  then have "\<forall>c \<in> set (calls (forEach xs f (state (f x s)))). P c"
  proof (rule Cons.IH)
    fix y s'
    assume "y \<in> set xs" "I s'"
    then show "I (state (f y s'))" using Cons.prems(2) [of y s'] by simp
  next
    fix y s' c
    assume "y \<in> set xs" "I s'" "c \<in> set (calls (f y s'))"
    then show "P c" using Cons.prems(3) [of y s' c] by simp
  qed
  with here show ?case
    by (simp add: calls_andThen ball_Un)
qed

lemma forEach_filter_replicate:
  assumes "I s" and "raised (forEach xs f s) = None"
    and "\<And>x s. x \<in> set xs \<Longrightarrow> I s \<Longrightarrow> I (state (f x s))"
    and "\<And>x s. x \<in> set xs \<Longrightarrow> I s \<Longrightarrow> raised (f x s) = None \<Longrightarrow>
           filter Q (calls (f x s)) = replicate (k x) d"
  shows "filter Q (calls (forEach xs f s)) = replicate (sum_list (map k xs)) d"
  using assms
proof (induction xs arbitrary: s)
  case Nil
  then show ?case by simp
next
  case (Cons x xs)
  from Cons.prems(2) have r: "raised (f x s) = None"
    and r': "raised (forEach xs f (state (f x s))) = None"
    by (simp_all add: raised_andThen_None)
  have "filter Q (calls (forEach xs f (state (f x s)))) = replicate (sum_list (map k xs)) d"
    by (rule Cons.IH [OF _ r']) (simp_all add: Cons.prems)
  moreover have "filter Q (calls (f x s)) = replicate (k x) d"
    by (rule Cons.prems(4)) (simp_all add: Cons.prems r)
  ultimately show ?case
    by (simp add: calls_andThen r replicate_add)
qed

lemma forEach_raised_None:
  assumes "I s" and "raised (forEach xs f s) = None" and "x \<in> set xs"
    and "\<And>x s. x \<in> set xs \<Longrightarrow> I s \<Longrightarrow> I (state (f x s))"
  shows "\<exists>s'. I s' \<and> raised (f x s') = None"
  using assms
proof (induction xs arbitrary: s)
  case Nil
  then show ?case by simp
next
  case (Cons y ys)
  from Cons.prems(2) have r: "raised (f y s) = None"
    and r': "raised (forEach ys f (state (f y s))) = None"
    by (simp_all add: raised_andThen_None)
  show ?case
  proof (cases "x = y")
    case True
    with r Cons.prems(1) show ?thesis by blast
  next
    case False
    with Cons.prems(3) have "x \<in> set ys" by simp
    moreover have "I (state (f y s))" by (rule Cons.prems(4)) (simp_all add: Cons.prems)
    ultimately show ?thesis using Cons.IH [OF _ r'] Cons.prems(4) by simp
  qed
qed

subsection \<open>What a frame leaves unchanged\<close>

lemma same_static_refl [simp]: "same_static s s"
  by (simp add: same_static_def)

lemma same_static_trans: "same_static s s' \<Longrightarrow> same_static s' s'' \<Longrightarrow> same_static s s''"
  by (simp add: same_static_def)

lemma same_staticD:
  assumes "same_static s s'"
  shows "scene s' = scene s" "mesh s' = mesh s" "geometry s' = geometry s"
    "material s' = material s" "cullable s' = cullable s" "transform s' = transform s"
    "uniform_name (uniform_objs s' x) = uniform_name (uniform_objs s x)"
    "uniform_data (uniform_objs s' x) = uniform_data (uniform_objs s x)"
  using assms by (simp_all add: same_static_def)

lemma same_static_camera:
  assumes "same_static s s'" and "camera s e = Some c"
  shows "\<exists>c'. camera s' e = Some c' \<and> viewTransform c' = viewTransform c \<and>
           perspective c' = perspective c"
proof -
  from assms(1) have "map_option (\<lambda>c. (viewTransform c, perspective c)) (camera s' e) =
      map_option (\<lambda>c. (viewTransform c, perspective c)) (camera s e)"
    by (simp add: same_static_def)
  with assms(2) show ?thesis by (cases "camera s' e") simp_all
qed

lemma same_static_camera_None:
  assumes "same_static s s'" and "camera s e = None"
  shows "camera s' e = None"
proof -
  from assms(1) have "map_option (\<lambda>c. (viewTransform c, perspective c)) (camera s' e) =
      map_option (\<lambda>c. (viewTransform c, perspective c)) (camera s e)"
    by (simp add: same_static_def)
  with assms(2) show ?thesis by simp
qed

lemma cleared_refl [simp]: "cleared s s"
  by (simp add: cleared_def)

lemma cleared_trans: "cleared s s' \<Longrightarrow> cleared s' s'' \<Longrightarrow> cleared s s''"
  by (auto simp: cleared_def intro: same_static_trans)

lemma cleared_static: "cleared s s' \<Longrightarrow> same_static s s'"
  by (simp add: cleared_def)

lemma material_uniforms_static:
  "same_static s s' \<Longrightarrow> material_uniforms s' ent = material_uniforms s ent"
  by (simp add: material_uniforms_def same_staticD)

lemma declares_static: "same_static s s' \<Longrightarrow> declares s' ent n = declares s ent n"
  by (simp add: declares_def material_uniforms_static same_staticD)

lemma visible_mesh_static: "same_static s s' \<Longrightarrow> visible_mesh s' e = visible_mesh s e"
  by (simp add: visible_mesh_def same_staticD)

lemma cleared_clear_dirty: "cleared s (clear_dirty s ent n)"
  by (simp add: cleared_def same_static_def clear_dirty_def dirty_def)

lemma cleared_extract:
  "camera s ent = Some cam \<Longrightarrow> cleared s (extractFromVPMatrix ent cam vp s)"
  by (simp add: cleared_def same_static_def extractFromVPMatrix_def dirty_def)

lemma clears_ok [simp]: "clears ok"
  by (simp add: clears_def)

lemma clears_throw [simp]: "clears (throw e)"
  by (simp add: clears_def)

lemma clears_emit [simp]: "clears (emit c)"
  by (simp add: clears_def)

lemma clears_andThen: "clears f \<Longrightarrow> clears g \<Longrightarrow> clears (\<lambda>s. andThen (f s) g)"
  by (auto simp: clears_def state_andThen intro: cleared_trans)

lemma clears_forEach:
  assumes "\<And>x. x \<in> set xs \<Longrightarrow> clears (f x)"
  shows "clears (forEach xs f)"
  unfolding clears_def
proof
  fix s
  show "cleared s (state (forEach xs f s))"
  proof (rule forEach_invariant [where I = "cleared s"])
    show "cleared s s" by simp
  next
    fix x s'
    assume "x \<in> set xs" "cleared s s'"
    then show "cleared s (state (f x s'))"
      using assms [of x] by (auto simp: clears_def intro: cleared_trans)
  qed
qed

lemma clearsD: "clears f \<Longrightarrow> cleared s (state (f s))"
  by (simp add: clears_def)

lemma clears_setUniform: "clears (setUniform sys ent n d isCustomValue)"
  by (simp add: clears_def setUniform_def cleared_clear_dirty)

lemma clears_materialSystem_setUniform:
  "clears (materialSystem_setUniform materialSystem ent n d isCustomValue)"
proof (cases materialSystem)
  case None
  then have "materialSystem_setUniform materialSystem ent n d isCustomValue = throw TypeError"
    by (intro ext) (simp add: materialSystem_setUniform_def)
  then show ?thesis by simp
next
  case (Some sys)
  then have "materialSystem_setUniform materialSystem ent n d isCustomValue =
      setUniform sys ent n d isCustomValue"
    by (intro ext) (simp add: materialSystem_setUniform_def)
  then show ?thesis by (simp add: clears_setUniform)
qed

lemma clears_update_camera_uniforms:
  "clears (update_camera_uniforms materialSystem cam viewMatrix meshEntity ent)"
  unfolding clears_def
proof
  fix s
  show "cleared s (state (update_camera_uniforms materialSystem cam viewMatrix meshEntity ent s))"
  proof (cases "transform s meshEntity")
    case None
    then show ?thesis by (simp add: update_camera_uniforms_def)
  next
    case (Some tr)
    have "clears (\<lambda>s. andThen
        (materialSystem_setUniform materialSystem ent ''projectionMatrix'' (perspective cam) False s)
        (materialSystem_setUniform materialSystem ent ''modelViewMatrix''
           (viewMatrix * worldTransform tr) False))"
      by (intro clears_andThen clears_materialSystem_setUniform)
    with Some show ?thesis by (simp add: update_camera_uniforms_def clears_def)
  qed
qed

lemma clears_update_uniform: "clears (update_uniform materialSystem ent x)"
  unfolding clears_def
proof
  fix s
  show "cleared s (state (update_uniform materialSystem ent x s))"
    by (simp add: update_uniform_def clearsD [OF clears_materialSystem_setUniform])
qed

lemma clears_update_uniforms: "clears (update_uniforms materialSystem ent mat)"
proof -
  have eq: "update_uniforms materialSystem ent mat =
      forEach (uniforms mat) (\<lambda>binding. forEach binding (update_uniform materialSystem ent))"
    by (intro ext) (simp add: update_uniforms_def)
  show ?thesis
    unfolding eq by (intro clears_forEach clears_update_uniform)
qed

lemma clears_bindVertexInputs: "clears (bindVertexInputs geo)"
  by (simp add: clears_def bindVertexInputs_def)

lemma clears_draw_mesh: "clears (draw_mesh materialSystem cam viewMatrix meshEntity m mat geo)"
proof -
  have eq: "draw_mesh materialSystem cam viewMatrix meshEntity m mat geo =
      (\<lambda>s. andThen (andThen (andThen (andThen
         (update_camera_uniforms materialSystem cam viewMatrix meshEntity (mesh_material m) s)
         (update_uniforms materialSystem (mesh_material m) mat))
         (emit (SetRenderBindGroups [uniformBindGroup mat])))
         (bindVertexInputs geo))
         (emit (draw meshEntity mat geo)))"
    by (intro ext) (simp add: draw_mesh_def)
  show ?thesis
    unfolding eq
    by (intro clears_andThen clears_update_camera_uniforms clears_update_uniforms
        clears_bindVertexInputs clears_emit)
qed

lemma clears_render_mesh: "clears (render_mesh materialSystem cam viewMatrix meshEntity)"
  unfolding clears_def
proof
  fix s
  show "cleared s (state (render_mesh materialSystem cam viewMatrix meshEntity s))"
    by (simp add: render_mesh_def render_ready_def clearsD [OF clears_draw_mesh]
        split: option.split)
qed

lemma clears_render_scene: "clears (render_scene materialSystem sc)"
  unfolding clears_def
proof
  fix s
  show "cleared s (state (render_scene materialSystem sc s))"
  proof (cases "camera s (scene_camera (snd sc))")
    case None
    then show ?thesis by (simp add: render_scene_def)
  next
    case (Some cam)
    have "cleared s (extractFromVPMatrix (scene_camera (snd sc)) cam
        (perspective cam * viewTransform cam) s)"
      using Some by (rule cleared_extract)
    moreover have "clears (forEach (meshes (snd sc))
        (render_mesh materialSystem cam (viewTransform cam)))"
      by (intro clears_forEach clears_render_mesh)
    ultimately show ?thesis
      using Some by (auto simp: render_scene_def clears_def intro: cleared_trans)
  qed
qed

subsection \<open>Labels\<close>

lemma of_char_digit: "n < 10 \<Longrightarrow> (of_char (digit n) :: nat) = 48 + n"
  by (simp add: digit_def)

lemma digit_inj:
  assumes "n < 10" and "m < 10" and "digit n = digit m"
  shows "n = m"
proof -
  from assms(3) have "(of_char (digit n) :: nat) = of_char (digit m)"
    by (rule arg_cong)
  then have "48 + n = 48 + m"
    by (simp only: of_char_digit [OF assms(1)] of_char_digit [OF assms(2)])
  then show ?thesis by simp
qed

lemma decimal_not_Nil [simp]: "decimal n \<noteq> []"
  by (subst decimal.simps) simp

lemma Nil_not_decimal [simp]: "[] \<noteq> decimal n"
  using decimal_not_Nil [of n] by (simp del: decimal_not_Nil)

lemma decimal_small: "n < 10 \<Longrightarrow> decimal n = [digit n]"
  by (subst decimal.simps) simp

lemma decimal_large: "\<not> n < 10 \<Longrightarrow> decimal n = decimal (n div 10) @ [digit (n mod 10)]"
  by (subst decimal.simps) simp

lemma decimal_inj: "decimal n = decimal m \<Longrightarrow> n = m"
proof (induction n arbitrary: m rule: decimal.induct)
  case (1 n)
  show ?case
  proof (cases "n < 10")
    case n: True
    show ?thesis
    proof (cases "m < 10")
      case True
      with n "1.prems" show ?thesis by (simp add: decimal_small digit_inj)
    next
      case False
      with n "1.prems" show ?thesis by (simp add: decimal_small decimal_large)
    qed
  next
    case n: False
    show ?thesis
    proof (cases "m < 10")
      case True
      with n "1.prems" show ?thesis by (simp add: decimal_small decimal_large)
    next
      case False
      with n "1.prems" have "decimal (n div 10) = decimal (m div 10)"
        and "digit (n mod 10) = digit (m mod 10)"
        by (simp_all add: decimal_large)
      then have "n div 10 = m div 10" and "n mod 10 = m mod 10"
        using "1.IH" [OF n] by (simp_all add: digit_inj)
      then show ?thesis by (metis div_mult_mod_eq)
    qed
  qed
qed

lemma elements_label_inj [simp]: "elements_label x = elements_label e \<longleftrightarrow> x = e"
  by (auto simp: elements_label_def dest: decimal_inj)

lemma arrays_label_inj [simp]: "arrays_label x = arrays_label e \<longleftrightarrow> x = e"
  by (auto simp: arrays_label_def dest: decimal_inj)

lemma is_draw_of_draw [simp]: "is_draw_of e (draw x mat geo) \<longleftrightarrow> x = e"
  by (simp add: draw_def split: option.split)

lemma is_draw_draw [simp]: "is_draw (draw x mat geo)"
  by (simp add: draw_def split: option.split)

lemma is_draw_of_is_draw: "is_draw_of e c \<Longrightarrow> is_draw c"
  by (cases c) simp_all

subsection \<open>The calls of one mesh\<close>

lemma calls_setUniform:
  "calls (setUniform sys ent n d isCustomValue s) = [SetUniform ent n d isCustomValue]"
  by (simp add: setUniform_def)

lemma calls_materialSystem_setUniform:
  "calls (materialSystem_setUniform materialSystem ent n d isCustomValue s) =
     (case materialSystem of None \<Rightarrow> [] | Some sys \<Rightarrow> [SetUniform ent n d isCustomValue])"
  by (simp add: materialSystem_setUniform_def calls_setUniform split: option.split)

lemma calls_update_camera_uniforms:
  "c \<in> set (calls (update_camera_uniforms materialSystem cam viewMatrix meshEntity ent s)) \<Longrightarrow>
     \<exists>n d. c = SetUniform ent n d False"
  by (auto simp: update_camera_uniforms_def calls_andThen calls_materialSystem_setUniform
      split: option.splits if_splits)

lemma calls_update_uniform:
  "c \<in> set (calls (update_uniform materialSystem ent x s)) \<Longrightarrow>
     c = SetUniform ent (uniform_name (uniform_objs s x)) (uniform_data (uniform_objs s x)) True"
  by (auto simp: update_uniform_def calls_materialSystem_setUniform
      split: option.splits if_splits)

lemma calls_update_uniforms:
  assumes "c \<in> set (calls (update_uniforms materialSystem ent mat s))"
  shows "\<exists>n d. c = SetUniform ent n d True"
proof -
  have "\<forall>c \<in> set (calls (forEach (concat (uniforms mat))
      (update_uniform materialSystem ent) s)). \<exists>n d. c = SetUniform ent n d True"
  proof (rule forEach_calls_all [where I = "\<lambda>_. True"])
    fix x s' c
    assume "c \<in> set (calls (update_uniform materialSystem ent x s'))"
    then show "\<exists>n d. c = SetUniform ent n d True"
      by (auto dest: calls_update_uniform)
  qed simp_all
  with assms show ?thesis
    by (simp add: update_uniforms_def forEach_concat)
qed

lemma calls_bindVertexInputs:
  "c \<in> set (calls (bindVertexInputs geo s)) \<Longrightarrow> \<exists>v. c = BindVertexInputs v"
  by (auto simp: bindVertexInputs_def split: if_splits)

lemma state_bindVertexInputs [simp]: "state (bindVertexInputs geo s) = s"
  by (simp add: bindVertexInputs_def)

lemma raised_bindVertexInputs [simp]: "raised (bindVertexInputs geo s) = None"
  by (simp add: bindVertexInputs_def)

lemma filter_no_match: "(\<And>c. c \<in> set cs \<Longrightarrow> \<not> P c) \<Longrightarrow> filter P cs = []"
  by (simp add: filter_empty_conv)

lemma draws_update_camera_uniforms [simp]:
  "filter is_draw (calls (update_camera_uniforms materialSystem cam viewMatrix meshEntity ent s)) = []"
  by (rule filter_no_match) (auto dest: calls_update_camera_uniforms)

lemma draws_update_uniforms [simp]:
  "filter is_draw (calls (update_uniforms materialSystem ent mat s)) = []"
  by (rule filter_no_match) (auto dest: calls_update_uniforms)

lemma draws_bindVertexInputs [simp]: "filter is_draw (calls (bindVertexInputs geo s)) = []"
  by (rule filter_no_match) (auto dest: calls_bindVertexInputs)

lemma raised_draw_mesh:
  "raised (draw_mesh materialSystem cam viewMatrix meshEntity m mat geo s) =
     (case raised (update_camera_uniforms materialSystem cam viewMatrix meshEntity
             (mesh_material m) s) of
        Some e \<Rightarrow> Some e
      | None \<Rightarrow> raised (update_uniforms materialSystem (mesh_material m) mat
          (state (update_camera_uniforms materialSystem cam viewMatrix meshEntity
             (mesh_material m) s))))"
  by (simp add: draw_mesh_def raised_andThen state_andThen split: option.split)

lemma calls_draw_mesh:
  "calls (draw_mesh materialSystem cam viewMatrix meshEntity m mat geo s) =
     calls (update_camera_uniforms materialSystem cam viewMatrix meshEntity (mesh_material m) s) @
     (if raised (update_camera_uniforms materialSystem cam viewMatrix meshEntity
             (mesh_material m) s) = None
      then calls (update_uniforms materialSystem (mesh_material m) mat
             (state (update_camera_uniforms materialSystem cam viewMatrix meshEntity
                (mesh_material m) s))) @
           (if raised (draw_mesh materialSystem cam viewMatrix meshEntity m mat geo s) = None
            then SetRenderBindGroups [uniformBindGroup mat] #
                 calls (bindVertexInputs geo s) @ [draw meshEntity mat geo]
            else [])
      else [])"
  by (auto simp: draw_mesh_def raised_andThen state_andThen calls_andThen bindVertexInputs_def)

lemma draws_draw_mesh:
  "filter is_draw (calls (draw_mesh materialSystem cam viewMatrix meshEntity m mat geo s)) =
     (if raised (draw_mesh materialSystem cam viewMatrix meshEntity m mat geo s) = None
      then [draw meshEntity mat geo] else [])"
  by (simp add: calls_draw_mesh raised_draw_mesh split: option.split)

lemma render_mesh_drawable:
  "drawable s e m mat geo \<Longrightarrow>
     render_mesh materialSystem cam viewMatrix e s =
       draw_mesh materialSystem cam viewMatrix e m mat geo s"
  by (simp add: drawable_def render_mesh_def render_ready_def)

lemma render_mesh_cases:
  "calls (render_mesh materialSystem cam viewMatrix e s) = [] \<or>
     (\<exists>m mat geo. drawable s e m mat geo)"
  by (auto simp: drawable_def render_mesh_def render_ready_def split: option.split)

lemma draws_render_mesh:
  assumes "c \<in> set (calls (render_mesh materialSystem cam viewMatrix x s))" and "is_draw c"
  shows "\<exists>m mat geo. drawable s x m mat geo \<and> c = draw x mat geo"
proof -
  from assms(1) render_mesh_cases [of materialSystem cam viewMatrix x s]
  obtain m mat geo where d: "drawable s x m mat geo"
    by auto
  with assms have "c \<in> set (filter is_draw
      (calls (draw_mesh materialSystem cam viewMatrix x m mat geo s)))"
    by (simp add: render_mesh_drawable)
  then have "c = draw x mat geo"
    by (simp add: draws_draw_mesh split: if_splits)
  with d show ?thesis by blast
qed

lemma drawable_static: "same_static s s' \<Longrightarrow> drawable s' e m mat geo = drawable s e m mat geo"
  by (simp add: drawable_def visible_mesh_static same_staticD)
subsection \<open>The calls of a frame\<close>

lemma calls_render:
  "calls (render systems s) =
     Clear black True True True #
     calls (forEach (scene s) (render_scene (find_materialSystem systems)) s)"
  by (simp add: render_def calls_andThen)

lemma raised_render:
  "raised (render systems s) =
     raised (forEach (scene s) (render_scene (find_materialSystem systems)) s)"
  by (simp add: render_def raised_andThen)

lemma state_render:
  "state (render systems s) =
     state (forEach (scene s) (render_scene (find_materialSystem systems)) s)"
  by (simp add: render_def state_andThen)

lemma mesh_in_frame:
  "sc \<in> set (scene s) \<Longrightarrow> x \<in> set (meshes (snd sc)) \<Longrightarrow> x \<in> set (frame_meshes s)"
  by (auto simp: frame_meshes_def)

lemma scene_calls_all:
  assumes "cleared s0 s"
    and step: "\<And>cam v x s' c. x \<in> set (meshes (snd sc)) \<Longrightarrow> cleared s0 s' \<Longrightarrow>
           c \<in> set (calls (render_mesh materialSystem cam v x s')) \<Longrightarrow> P c"
  shows "\<forall>c \<in> set (calls (render_scene materialSystem sc s)). P c"
proof (cases "camera s (scene_camera (snd sc))")
  case None
  then show ?thesis by (simp add: render_scene_def)
next
  case (Some cam)
  let ?s = "extractFromVPMatrix (scene_camera (snd sc)) cam (perspective cam * viewTransform cam) s"
  have "\<forall>c \<in> set (calls (forEach (meshes (snd sc))
      (render_mesh materialSystem cam (viewTransform cam)) ?s)). P c"
  proof (rule forEach_calls_all [where I = "cleared s0"])
    show "cleared s0 ?s"
      using assms(1) cleared_extract [OF Some] by (rule cleared_trans)
  next
    fix x s'
    assume "cleared s0 s'"
    then show "cleared s0 (state (render_mesh materialSystem cam (viewTransform cam) x s'))"
      using clearsD [OF clears_render_mesh] by (rule cleared_trans)
  next
    fix x s' c
    assume "x \<in> set (meshes (snd sc))" "cleared s0 s'"
      "c \<in> set (calls (render_mesh materialSystem cam (viewTransform cam) x s'))"
    then show "P c" by (rule step)
  qed
  with Some show ?thesis by (simp add: render_scene_def)
qed

lemma frame_calls_all:
  assumes step: "\<And>cam v x s' c. x \<in> set (frame_meshes s) \<Longrightarrow> cleared s s' \<Longrightarrow>
           c \<in> set (calls (render_mesh materialSystem cam v x s')) \<Longrightarrow> P c"
  shows "\<forall>c \<in> set (calls (forEach (scene s) (render_scene materialSystem) s)). P c"
proof (rule forEach_calls_all [where I = "cleared s"])
  show "cleared s s" by simp
next
  fix sc s'
  assume "cleared s s'"
  then show "cleared s (state (render_scene materialSystem sc s'))"
    using clearsD [OF clears_render_scene] by (rule cleared_trans)
next
  fix sc s' c
  assume sc: "sc \<in> set (scene s)" and s': "cleared s s'"
    and c: "c \<in> set (calls (render_scene materialSystem sc s'))"
  have "\<forall>c \<in> set (calls (render_scene materialSystem sc s')). P c"
    using s'
  proof (rule scene_calls_all)
    fix cam v x s'' c
    assume "x \<in> set (meshes (snd sc))" "cleared s s''"
      "c \<in> set (calls (render_mesh materialSystem cam v x s''))"
    with sc show "P c" by (intro step [of x s'' c cam v] mesh_in_frame)
  qed
  with c show "P c" by blast
qed

lemma scene_filter_replicate:
  assumes "cleared s0 s" and "raised (render_scene materialSystem sc s) = None"
    and step: "\<And>cam v x s'. x \<in> set (meshes (snd sc)) \<Longrightarrow> cleared s0 s' \<Longrightarrow>
           raised (render_mesh materialSystem cam v x s') = None \<Longrightarrow>
           filter Q (calls (render_mesh materialSystem cam v x s')) = replicate (k x) d"
  shows "filter Q (calls (render_scene materialSystem sc s)) =
           replicate (sum_list (map k (meshes (snd sc)))) d"
proof (cases "camera s (scene_camera (snd sc))")
  case None
  with assms(2) show ?thesis by (simp add: render_scene_def)
next
  case (Some cam)
  let ?s = "extractFromVPMatrix (scene_camera (snd sc)) cam (perspective cam * viewTransform cam) s"
  have "filter Q (calls (forEach (meshes (snd sc))
      (render_mesh materialSystem cam (viewTransform cam)) ?s)) =
      replicate (sum_list (map k (meshes (snd sc)))) d"
  proof (rule forEach_filter_replicate [where I = "cleared s0"])
    show "cleared s0 ?s"
      using assms(1) cleared_extract [OF Some] by (rule cleared_trans)
  next
    show "raised (forEach (meshes (snd sc))
        (render_mesh materialSystem cam (viewTransform cam)) ?s) = None"
      using assms(2) Some by (simp add: render_scene_def)
  next
    fix x s'
    assume "cleared s0 s'"
    then show "cleared s0 (state (render_mesh materialSystem cam (viewTransform cam) x s'))"
      using clearsD [OF clears_render_mesh] by (rule cleared_trans)
  next
    fix x s'
    assume "x \<in> set (meshes (snd sc))" "cleared s0 s'"
      "raised (render_mesh materialSystem cam (viewTransform cam) x s') = None"
    then show "filter Q (calls (render_mesh materialSystem cam (viewTransform cam) x s')) =
        replicate (k x) d"
      by (rule step)
  qed
  with Some show ?thesis by (simp add: render_scene_def)
qed

lemma sum_list_frame_meshes:
  "sum_list (map (\<lambda>sc. sum_list (map k (meshes (snd sc)))) scs) =
     sum_list (map k (concat (map (\<lambda>sc. meshes (snd sc)) scs)))"
  by (induction scs) simp_all

lemma frame_filter_replicate:
  assumes "raised (forEach (scene s) (render_scene materialSystem) s) = None"
    and step: "\<And>cam v x s'. x \<in> set (frame_meshes s) \<Longrightarrow> cleared s s' \<Longrightarrow>
           raised (render_mesh materialSystem cam v x s') = None \<Longrightarrow>
           filter Q (calls (render_mesh materialSystem cam v x s')) = replicate (k x) d"
  shows "filter Q (calls (forEach (scene s) (render_scene materialSystem) s)) =
           replicate (sum_list (map k (frame_meshes s))) d"
proof -
  have "filter Q (calls (forEach (scene s) (render_scene materialSystem) s)) =
      replicate (sum_list (map (\<lambda>sc. sum_list (map k (meshes (snd sc)))) (scene s))) d"
  proof (rule forEach_filter_replicate [where I = "cleared s"])
    show "cleared s s" by simp
  next
    show "raised (forEach (scene s) (render_scene materialSystem) s) = None" by fact
  next
    fix sc s'
    assume "cleared s s'"
    then show "cleared s (state (render_scene materialSystem sc s'))"
      using clearsD [OF clears_render_scene] by (rule cleared_trans)
  next
    fix sc s'
    assume sc: "sc \<in> set (scene s)" and s': "cleared s s'"
      and r: "raised (render_scene materialSystem sc s') = None"
    show "filter Q (calls (render_scene materialSystem sc s')) =
        replicate (sum_list (map k (meshes (snd sc)))) d"
      using s' r
    proof (rule scene_filter_replicate)
      fix cam v x s''
      assume "x \<in> set (meshes (snd sc))" "cleared s s''"
        "raised (render_mesh materialSystem cam v x s'') = None"
      with sc show "filter Q (calls (render_mesh materialSystem cam v x s'')) = replicate (k x) d"
        by (intro step mesh_in_frame)
    qed
  qed
  then show ?thesis
    by (simp add: sum_list_frame_meshes frame_meshes_def)
qed

lemma sum_list_count_list:
  "sum_list (map (\<lambda>x. if x = e then 1 else 0) xs) = count_list xs e"
  by (induction xs) simp_all

subsection \<open>Draw calls of a frame\<close>

lemma draws_of_draws: "filter (is_draw_of e) cs = filter (is_draw_of e) (filter is_draw cs)"
  by (induction cs) (auto dest: is_draw_of_is_draw)

lemma frame_draws:
  assumes "c \<in> set (calls (render systems s))" and "is_draw c"
  shows "\<exists>e m mat geo. e \<in> set (frame_meshes s) \<and> drawable s e m mat geo \<and>
           c = draw e mat geo"
proof -
  let ?P = "\<lambda>c. is_draw c \<longrightarrow>
    (\<exists>e m mat geo. e \<in> set (frame_meshes s) \<and> drawable s e m mat geo \<and> c = draw e mat geo)"
  have "\<forall>c \<in> set (calls (forEach (scene s) (render_scene (find_materialSystem systems)) s)).
      ?P c"
  proof (rule frame_calls_all)
    fix cam v x s' c
    assume x: "x \<in> set (frame_meshes s)" and s': "cleared s s'"
      and c: "c \<in> set (calls (render_mesh (find_materialSystem systems) cam v x s'))"
    show "?P c"
    proof
      assume "is_draw c"
      with c obtain m mat geo where "drawable s' x m mat geo" and "c = draw x mat geo"
        by (blast dest: draws_render_mesh)
      with x s' show "\<exists>e m mat geo. e \<in> set (frame_meshes s) \<and> drawable s e m mat geo \<and>
          c = draw e mat geo"
        by (auto simp: drawable_static [OF cleared_static])
    qed
  qed
  with assms show ?thesis
    by (auto simp: calls_render)
qed

lemma frame_draws_of:
  assumes "c \<in> set (calls (render systems s))" and "is_draw_of e c"
  shows "\<exists>m mat geo. e \<in> set (frame_meshes s) \<and> drawable s e m mat geo \<and> c = draw e mat geo"
proof -
  from assms obtain x m mat geo where "x \<in> set (frame_meshes s)" "drawable s x m mat geo"
    "c = draw x mat geo"
    by (blast dest: frame_draws is_draw_of_is_draw)
  with assms(2) show ?thesis by auto
qed

lemma frame_draw_count:
  assumes "raised (render systems s) = None" and d: "drawable s e m mat geo"
  shows "filter (is_draw_of e) (calls (render systems s)) =
           replicate (count_list (frame_meshes s) e) (draw e mat geo)"
proof -
  let ?ms = "find_materialSystem systems"
  have "filter (is_draw_of e) (calls (forEach (scene s) (render_scene ?ms) s)) =
      replicate (sum_list (map (\<lambda>x. if x = e then 1 else 0) (frame_meshes s))) (draw e mat geo)"
  proof (rule frame_filter_replicate)
    show "raised (forEach (scene s) (render_scene ?ms) s) = None"
      using assms(1) by (simp add: raised_render)
  next
    fix cam v x s'
    assume s': "cleared s s'" and r: "raised (render_mesh ?ms cam v x s') = None"
    show "filter (is_draw_of e) (calls (render_mesh ?ms cam v x s')) =
        replicate (if x = e then 1 else 0) (draw e mat geo)"
    proof (cases "x = e")
      case True
      from d s' have "drawable s' e m mat geo"
        by (simp add: drawable_static [OF cleared_static])
      then have eq: "render_mesh ?ms cam v e s' = draw_mesh ?ms cam v e m mat geo s'"
        by (rule render_mesh_drawable)
      have "filter (is_draw_of e) (calls (draw_mesh ?ms cam v e m mat geo s')) =
          filter (is_draw_of e) [draw e mat geo]"
        using r True by (subst draws_of_draws) (simp add: draws_draw_mesh eq)
      with True show ?thesis by (simp add: eq)
    next
      case False
      have "filter (is_draw_of e) (calls (render_mesh ?ms cam v x s')) = []"
      proof (rule filter_no_match)
        fix c
        assume c: "c \<in> set (calls (render_mesh ?ms cam v x s'))"
        show "\<not> is_draw_of e c"
        proof
          assume e: "is_draw_of e c"
          with c obtain m' mat' geo' where "c = draw x mat' geo'"
            by (blast dest: draws_render_mesh is_draw_of_is_draw)
          with e False show False by simp
        qed
      qed
      with False show ?thesis by simp
    qed
  qed
  then show ?thesis
    by (simp add: calls_render sum_list_count_list)
qed

lemma calls_draw_mesh_kinds:
  assumes "c \<in> set (calls (draw_mesh materialSystem cam v x m mat geo s))"
  shows "(\<exists>n d k. c = SetUniform (mesh_material m) n d k) \<or>
         c = SetRenderBindGroups [uniformBindGroup mat] \<or>
         (\<exists>i. c = BindVertexInputs i) \<or> c = draw x mat geo"
proof -
  from assms consider
      "c \<in> set (calls (update_camera_uniforms materialSystem cam v x (mesh_material m) s))"
    | "c \<in> set (calls (update_uniforms materialSystem (mesh_material m) mat
         (state (update_camera_uniforms materialSystem cam v x (mesh_material m) s))))"
    | "c = SetRenderBindGroups [uniformBindGroup mat]"
    | "c \<in> set (calls (bindVertexInputs geo s))"
    | "c = draw x mat geo"
    by (auto simp: calls_draw_mesh split: if_splits)
  then show ?thesis
  proof cases
    case 1
    then show ?thesis by (blast dest: calls_update_camera_uniforms)
  next
    case 2
    then show ?thesis by (blast dest: calls_update_uniforms)
  next
    case 4
    then show ?thesis by (blast dest: calls_bindVertexInputs)
  qed simp_all
qed

lemma no_clear_render_mesh:
  assumes "c \<in> set (calls (render_mesh materialSystem cam v x s))"
  shows "\<not> is_clear c"
proof -
  from assms render_mesh_cases [of materialSystem cam v x s]
  obtain m mat geo where "drawable s x m mat geo"
    by auto
  with assms have "c \<in> set (calls (draw_mesh materialSystem cam v x m mat geo s))"
    by (simp add: render_mesh_drawable)
  moreover have "\<not> is_clear (draw x mat geo)"
    by (simp add: draw_def split: option.split)
  ultimately show ?thesis
    by (auto dest!: calls_draw_mesh_kinds)
qed

lemma no_draws_of_undrawable:
  assumes "\<And>m mat geo. \<not> drawable s e m mat geo"
  shows "filter (is_draw_of e) (calls (render systems s)) = []"
proof (rule filter_no_match)
  fix c
  assume "c \<in> set (calls (render systems s))"
  with assms show "\<not> is_draw_of e c"
    by (blast dest: frame_draws_of)
qed

lemma no_calls_of_undrawable:
  assumes "\<And>m mat geo. \<not> drawable s e m mat geo"
  shows "calls (render_mesh materialSystem cam viewMatrix e s) = []"
  using render_mesh_cases [of materialSystem cam viewMatrix e s] assms by blast

lemma instances_of_draw [simp]: "instances_of (draw e mat geo) = Some (instanceCount geo)"
  by (simp add: draw_def split: option.split)

subsection \<open>The concrete frame, evaluated\<close>

lemma demo_raised: "raised (render demo_systems demo_store) = None"
  by code_simp

lemma demo_calls:
  "calls (render demo_systems demo_store) =
     [Clear black True True True,
      SetUniform 10 ''projectionMatrix'' 7 False,
      SetUniform 10 ''modelViewMatrix'' 15 False,
      SetUniform 10 ''color'' 9 True,
      SetRenderBindGroups [200],
      BindVertexInputs \<lparr>indexBuffer = Some 101, indexOffset = 0, vertexStartSlot = 0,
        vertexBuffers = [100], vertexOffsets = [0]\<rparr>,
      DrawElementsType ''render-2-elements''
        (descriptor demo_material demo_indexed (Some ''uint32'')) 0 6 1,
      SetRenderBindGroups [200],
      DrawArraysType ''render-3-arrays'' (descriptor demo_material demo_triangle None) 0 3 4]"
  by code_simp

lemma demo_labels:
  "elements_label 2 = ''render-2-elements''" "arrays_label 3 = ''render-3-arrays''"
  by code_simp+

lemma demo_lookups:
  "cullable demo_store 2 = Some \<lparr>visible = True\<rparr>"
  "cullable demo_store 3 = Some \<lparr>visible = True\<rparr>"
  "cullable demo_store 4 = Some \<lparr>visible = False\<rparr>"
  "cullable demo_store 5 = None"
  "cullable demo_store 6 = Some \<lparr>visible = True\<rparr>"
  "cullable demo_store 7 = Some \<lparr>visible = True\<rparr>"
  "mesh demo_store 2 = Some \<lparr>mesh_material = 10, mesh_geometry = 20\<rparr>"
  "mesh demo_store 3 = Some \<lparr>mesh_material = 10, mesh_geometry = 21\<rparr>"
  "mesh demo_store 6 = Some \<lparr>mesh_material = 11, mesh_geometry = 20\<rparr>"
  "mesh demo_store 7 = Some \<lparr>mesh_material = 10, mesh_geometry = 22\<rparr>"
  "material demo_store 10 = Some demo_material"
  "material demo_store 11 = Some (demo_material\<lparr>material_dirty := True, uniforms := []\<rparr>)"
  "geometry demo_store 20 = Some demo_indexed"
  "geometry demo_store 21 = Some demo_triangle"
  "geometry demo_store 22 = Some (demo_triangle\<lparr>geometry_dirty := True\<rparr>)"
  "transform demo_store 2 = Some \<lparr>worldTransform = 3\<rparr>"
  "transform demo_store 3 = None"
  "frame_meshes demo_store = [2, 3, 4, 5, 6, 7]"
  by (simp_all add: demo_store_def frame_meshes_def)

lemma demo_components:
  "indices demo_indexed = Some [0, 1, 2, 2, 1, 3]" "instanceCount demo_indexed = 1"
  "indices demo_triangle = None" "instanceCount demo_triangle = 4"
  "maxInstancedCount demo_triangle = Some 4" "maxInstancedCount demo_indexed = None"
  "\<not> material_dirty demo_material" "\<not> geometry_dirty demo_indexed"
  "\<not> geometry_dirty demo_triangle"
  by (simp_all add: demo_indexed_def demo_triangle_def demo_material_def instanceCount_def)

subsection \<open>Exceptions, camera uniforms and vertex inputs\<close>

lemma frame_reach:
  assumes "raised (render systems s) = None" and "e \<in> set (frame_meshes s)"
  shows "\<exists>cam v s'. cleared s s' \<and>
           raised (render_mesh (find_materialSystem systems) cam v e s') = None"
proof -
  let ?ms = "find_materialSystem systems"
  from assms(2) obtain sc where sc: "sc \<in> set (scene s)" and e: "e \<in> set (meshes (snd sc))"
    by (auto simp: frame_meshes_def)
  have "\<exists>s'. cleared s s' \<and> raised (render_scene ?ms sc s') = None"
  proof (rule forEach_raised_None [where I = "cleared s"])
    show "raised (forEach (scene s) (render_scene ?ms) s) = None"
      using assms(1) by (simp add: raised_render)
  next
    fix x s'
    assume "cleared s s'"
    then show "cleared s (state (render_scene ?ms x s'))"
      using clearsD [OF clears_render_scene] by (rule cleared_trans)
  qed (simp_all add: sc)
  then obtain s1 where s1: "cleared s s1" and r: "raised (render_scene ?ms sc s1) = None"
    by blast
  from r obtain cam where cam: "camera s1 (scene_camera (snd sc)) = Some cam"
    by (cases "camera s1 (scene_camera (snd sc))") (simp_all add: render_scene_def)
  let ?s2 = "extractFromVPMatrix (scene_camera (snd sc)) cam
    (perspective cam * viewTransform cam) s1"
  have s2: "cleared s ?s2"
    using s1 cleared_extract [OF cam] by (rule cleared_trans)
  have "\<exists>s'. cleared s s' \<and> raised (render_mesh ?ms cam (viewTransform cam) e s') = None"
  proof (rule forEach_raised_None [where I = "cleared s"])
    show "raised (forEach (meshes (snd sc)) (render_mesh ?ms cam (viewTransform cam)) ?s2) = None"
      using r cam by (simp add: render_scene_def)
  next
    fix x s'
    assume "cleared s s'"
    then show "cleared s (state (render_mesh ?ms cam (viewTransform cam) x s'))"
      using clearsD [OF clears_render_mesh] by (rule cleared_trans)
  qed (simp_all add: s2 e)
  then show ?thesis by blast
qed

lemma render_mesh_dangling:
  assumes "visible_mesh s e" and "mesh s e = Some m"
    and "material s (mesh_material m) = None \<or>
         (\<exists>mat. material s (mesh_material m) = Some mat \<and> \<not> material_dirty mat \<and>
            geometry s (mesh_geometry m) = None)"
  shows "render_mesh materialSystem cam viewMatrix e s = throw TypeError s"
  using assms by (auto simp: render_mesh_def render_ready_def)

lemma dangling_raised: "raised (render demo_systems dangling_store) = Some TypeError"
  by code_simp

lemma dangling_calls: "calls (render demo_systems dangling_store) = [Clear black True True True]"
  by code_simp

lemma dangling_lookups:
  "cullable dangling_store 8 = Some \<lparr>visible = True\<rparr>"
  "mesh dangling_store 8 = Some \<lparr>mesh_material = 99, mesh_geometry = 20\<rparr>"
  "material dangling_store 99 = None"
  "frame_meshes dangling_store = [8, 2]"
  by (simp_all add: dangling_store_def demo_store_def frame_meshes_def)

lemma attribute_buffers_eq:
  "attribute_buffers geo = map the (filter (\<lambda>b. b \<noteq> None) (map buffer (attributes geo)))"
  by (simp add: attribute_buffers_def List.map_filter_def filter_map comp_def)

lemma calls_update_camera_uniforms_ok:
  assumes "raised (update_camera_uniforms materialSystem cam viewMatrix e ent s) = None"
  shows "calls (update_camera_uniforms materialSystem cam viewMatrix e ent s) =
     (case transform s e of
        None \<Rightarrow> []
      | Some tr \<Rightarrow>
          [SetUniform ent ''projectionMatrix'' (perspective cam) False,
           SetUniform ent ''modelViewMatrix'' (viewMatrix * worldTransform tr) False])"
proof (cases "transform s e")
  case None
  then show ?thesis by (simp add: update_camera_uniforms_def)
next
  case (Some tr)
  with assms obtain sys where "materialSystem = Some sys"
    by (cases materialSystem)
      (simp_all add: update_camera_uniforms_def materialSystem_setUniform_def)
  with assms Some show ?thesis
    by (simp add: update_camera_uniforms_def calls_andThen raised_andThen
        calls_materialSystem_setUniform split: if_splits)
qed

lemma camera_pushes_update_uniforms [simp]:
  "filter camera_push (calls (update_uniforms materialSystem ent mat s)) = []"
  by (rule filter_no_match) (auto dest: calls_update_uniforms)

lemma camera_pushes_bindVertexInputs [simp]:
  "filter camera_push (calls (bindVertexInputs geo s)) = []"
  by (rule filter_no_match) (auto dest: calls_bindVertexInputs)

lemma camera_push_draw [simp]: "\<not> camera_push (draw e mat geo)"
  by (simp add: draw_def split: option.split)

lemma camera_pushes_draw_mesh:
  assumes "raised (draw_mesh materialSystem cam viewMatrix e m mat geo s) = None"
  shows "filter camera_push (calls (draw_mesh materialSystem cam viewMatrix e m mat geo s)) =
     (case transform s e of
        None \<Rightarrow> []
      | Some tr \<Rightarrow>
          [SetUniform (mesh_material m) ''projectionMatrix'' (perspective cam) False,
           SetUniform (mesh_material m) ''modelViewMatrix'' (viewMatrix * worldTransform tr)
             False])"
proof -
  from assms have r: "raised (update_camera_uniforms materialSystem cam viewMatrix e
      (mesh_material m) s) = None"
    by (simp add: raised_draw_mesh split: option.splits)
  show ?thesis
    using assms r
    by (simp add: calls_draw_mesh calls_update_camera_uniforms_ok split: option.split)
qed

lemma binds_update_camera_uniforms [simp]:
  "filter is_bindVertexInputs
     (calls (update_camera_uniforms materialSystem cam viewMatrix e ent s)) = []"
  by (rule filter_no_match) (auto dest: calls_update_camera_uniforms)

lemma binds_update_uniforms [simp]:
  "filter is_bindVertexInputs (calls (update_uniforms materialSystem ent mat s)) = []"
  by (rule filter_no_match) (auto dest: calls_update_uniforms)

lemma is_bindVertexInputs_draw [simp]: "\<not> is_bindVertexInputs (draw e mat geo)"
  by (simp add: draw_def split: option.split)

lemma binds_draw_mesh:
  assumes "raised (draw_mesh materialSystem cam viewMatrix e m mat geo s) = None"
  shows "filter is_bindVertexInputs
           (calls (draw_mesh materialSystem cam viewMatrix e m mat geo s)) =
         calls (bindVertexInputs geo s)"
proof -
  from assms have r: "raised (update_camera_uniforms materialSystem cam viewMatrix e
      (mesh_material m) s) = None"
    by (simp add: raised_draw_mesh split: option.splits)
  have "filter is_bindVertexInputs (calls (bindVertexInputs geo s)) =
      calls (bindVertexInputs geo s)"
    by (simp add: bindVertexInputs_def)
  with assms r show ?thesis
    by (simp add: calls_draw_mesh)
qed

lemma untransformed_calls:
  "calls (render demo_systems untransformed_store) =
     [Clear black True True True,
      SetUniform 10 ''color'' 9 True,
      SetRenderBindGroups [200],
      DrawArraysType ''render-3-arrays'' (descriptor demo_material demo_triangle None) 0 3 4]"
  by code_simp

lemma unbuffered_calls:
  "calls (render demo_systems unbuffered_store) =
     [Clear black True True True,
      SetUniform 10 ''color'' 9 True,
      SetRenderBindGroups [200],
      BindVertexInputs \<lparr>indexBuffer = None, indexOffset = 0, vertexStartSlot = 0,
        vertexBuffers = [], vertexOffsets = []\<rparr>,
      DrawArraysType ''render-3-arrays'' (descriptor demo_material unbuffered None) 0 3 4]"
  by code_simp

lemma demo_mesh_2:
  "raised (render_mesh (find_materialSystem demo_systems) demo_camera 5 2 demo_store) = None"
  by code_simp

lemma demo_mesh_3:
  "raised (render_mesh (find_materialSystem demo_systems) demo_camera 5 3 demo_store) = None"
  by code_simp

lemma untransformed_lookups:
  "cullable untransformed_store 3 = Some \<lparr>visible = True\<rparr>"
  "mesh untransformed_store 3 = Some \<lparr>mesh_material = 10, mesh_geometry = 21\<rparr>"
  "material untransformed_store 10 = Some demo_material"
  "geometry untransformed_store 21 = Some demo_triangle"
  "transform untransformed_store 3 = None"
  by (simp_all add: untransformed_store_def demo_store_def)

lemma unbuffered_lookups:
  "cullable unbuffered_store 3 = Some \<lparr>visible = True\<rparr>"
  "mesh unbuffered_store 3 = Some \<lparr>mesh_material = 10, mesh_geometry = 21\<rparr>"
  "material unbuffered_store 10 = Some demo_material"
  "geometry unbuffered_store 21 = Some unbuffered"
  "map buffer (attributes unbuffered) = [None]"
  "\<not> geometry_dirty unbuffered"
  by (simp_all add: unbuffered_store_def demo_store_def unbuffered_def demo_triangle_def)

lemma demo_attributes:
  "map buffer (attributes demo_indexed) = [Some 100, None]"
  "attributes demo_indexed \<noteq> []"
  "indicesBuffer demo_indexed = Some 101"
  "attributes demo_triangle = []"
  by (simp_all add: demo_indexed_def demo_triangle_def)

lemma demo_camera_sel: "perspective demo_camera = 7" "viewTransform demo_camera = 5"
  by (simp_all add: demo_camera_def)

lemma demo_scene:
  "scene demo_store = [(0, \<lparr>scene_camera = 1, meshes = [2, 3, 4, 5, 6, 7]\<rparr>)]"
  "camera demo_store 1 = Some demo_camera"
  "camera demo_store (Suc 0) = Some demo_camera"
  by (simp_all add: demo_store_def)

subsection \<open>Stores after the parts of the callback\<close>

lemma forEach_once:
  assumes "I s" and "raised (forEach ys f s) = None"
    and step: "\<And>y t. y \<in> set ys \<Longrightarrow> I t \<Longrightarrow> raised (f y t) = None \<Longrightarrow>
      I (state (f y t)) \<and>
      filter Q (calls (f y t)) = (if D t \<and> U y then [p] else []) \<and>
      D (state (f y t)) = (D t \<and> \<not> U y)"
  shows "I (state (forEach ys f s)) \<and>
         filter Q (calls (forEach ys f s)) = (if D s \<and> (\<exists>y \<in> set ys. U y) then [p] else []) \<and>
         D (state (forEach ys f s)) = (D s \<and> \<not> (\<exists>y \<in> set ys. U y))"
  using assms
proof (induction ys arbitrary: s)
  case Nil
  then show ?case by simp
next
  case (Cons y ys)
  from Cons.prems(2) have r: "raised (f y s) = None"
    and r': "raised (forEach ys f (state (f y s))) = None"
    by (simp_all add: raised_andThen_None)
  have here: "I (state (f y s)) \<and>
      filter Q (calls (f y s)) = (if D s \<and> U y then [p] else []) \<and>
      D (state (f y s)) = (D s \<and> \<not> U y)"
    by (rule Cons.prems(3)) (simp_all add: Cons.prems(1) r)
  have rest: "I (state (forEach ys f (state (f y s)))) \<and>
      filter Q (calls (forEach ys f (state (f y s)))) =
        (if D (state (f y s)) \<and> (\<exists>y \<in> set ys. U y) then [p] else []) \<and>
      D (state (forEach ys f (state (f y s)))) =
        (D (state (f y s)) \<and> \<not> (\<exists>y \<in> set ys. U y))"
  proof (rule Cons.IH [OF _ r'])
    show "I (state (f y s))" using here by simp
  next
    fix z t
    assume "z \<in> set ys" "I t" "raised (f z t) = None"
    then show "I (state (f z t)) \<and>
        filter Q (calls (f z t)) = (if D t \<and> U z then [p] else []) \<and>
        D (state (f z t)) = (D t \<and> \<not> U z)"
      using Cons.prems(3) [of z t] by simp
  qed
  show ?case
  proof (cases "U y")
    case True
    with here rest r show ?thesis
      by (simp add: state_andThen calls_andThen)
  next
    case False
    with here rest r show ?thesis
      by (simp add: state_andThen calls_andThen)
  qed
qed

lemma state_setUniform_plain [simp]: "state (setUniform sys ent n d False s) = s"
  by (simp add: setUniform_def)

lemma state_materialSystem_setUniform_plain [simp]:
  "state (materialSystem_setUniform materialSystem ent n d False s) = s"
  by (simp add: materialSystem_setUniform_def split: option.split)

lemma state_update_camera_uniforms [simp]:
  "state (update_camera_uniforms materialSystem cam viewMatrix e ent s) = s"
  by (simp add: update_camera_uniforms_def state_andThen split: option.split)

lemma dirty_clear_dirty:
  "dirty (clear_dirty s ent n) x \<longleftrightarrow>
     dirty s x \<and> \<not> (x \<in> set (material_uniforms s ent) \<and> uniform_name (uniform_objs s x) = n)"
  by (simp add: dirty_def clear_dirty_def)

lemma declares_member:
  "x \<in> set (material_uniforms s ent) \<Longrightarrow> declares s ent (uniform_name (uniform_objs s x))"
  by (auto simp: declares_def list_ex_iff)

lemma update_uniforms_flat:
  "update_uniforms materialSystem ent mat s =
     forEach (concat (uniforms mat)) (update_uniform materialSystem ent) s"
  by (simp add: update_uniforms_def forEach_concat)

lemma calls_update_camera_uniforms_names:
  assumes "c \<in> set (calls (update_camera_uniforms materialSystem cam viewMatrix e ent s))"
  shows "\<exists>d. c = SetUniform ent ''projectionMatrix'' d False \<or>
             c = SetUniform ent ''modelViewMatrix'' d False"
  using assms
  by (auto simp: update_camera_uniforms_def calls_andThen calls_materialSystem_setUniform
      split: option.splits if_splits)

lemma state_draw_mesh:
  "state (draw_mesh materialSystem cam v e m mat geo s) =
     (if raised (update_camera_uniforms materialSystem cam v e (mesh_material m) s) = None
      then state (update_uniforms materialSystem (mesh_material m) mat s) else s)"
  by (simp add: draw_mesh_def state_andThen raised_andThen)

lemma render_mesh_undrawable:
  assumes "\<And>m mat geo. \<not> drawable s e m mat geo"
  shows "state (render_mesh materialSystem cam v e s) = s \<and>
         calls (render_mesh materialSystem cam v e s) = []"
  using assms
  by (auto simp: drawable_def render_mesh_def render_ready_def split: option.split)

lemma dirty_extract [simp]: "dirty (extractFromVPMatrix ent cam vp s) x = dirty s x"
  by (simp add: dirty_def extractFromVPMatrix_def)

lemma replay_refl [simp]: "replay materialSystem s s"
  by (simp add: replay_def)

lemma replay_cleared: "replay materialSystem sa sb \<Longrightarrow> cleared sa sb"
  by (simp add: replay_def)

lemma replay_back:
  assumes "replay materialSystem s2 sb" and "cleared s1 s2"
    and "materialSystem = None \<Longrightarrow> \<forall>x. dirty s2 x = dirty s1 x"
  shows "replay materialSystem s1 sb"
  using assms by (auto simp: replay_def intro: cleared_trans)

lemma replay_forward:
  assumes "replay materialSystem sa sb" and "cleared sb sb'"
    and "\<And>x. dirty sb' x = dirty sb x"
  shows "replay materialSystem sa sb'"
  using assms by (auto simp: replay_def intro: cleared_trans)

lemma forEach_back:
  assumes "\<And>y s. y \<in> set ys \<Longrightarrow> R (state (f y s)) sb \<Longrightarrow> R s sb"
    and "R (state (forEach ys f s)) sb"
  shows "R s sb"
  using assms
proof (induction ys arbitrary: s)
  case Nil
  then show ?case by simp
next
  case (Cons y ys)
  have pull: "\<And>z s. z \<in> set ys \<Longrightarrow> R (state (f z s)) sb \<Longrightarrow> R s sb"
    by (rule Cons.prems(1)) simp_all
  show ?case
  proof (cases "raised (f y s)")
    case None
    with Cons.prems(2) have "R (state (forEach ys f (state (f y s)))) sb"
      by (simp add: state_andThen)
    with pull have "R (state (f y s)) sb"
      by (rule Cons.IH)
    with Cons.prems(1) [of y s] show ?thesis by simp
  next
    case (Some e)
    with Cons.prems(2) have "R (state (f y s)) sb"
      by (simp add: state_andThen)
    with Cons.prems(1) [of y s] show ?thesis by simp
  qed
qed

lemma forEach_replay:
  assumes pull: "\<And>y s sb. y \<in> set ys \<Longrightarrow> R (state (f y s)) sb \<Longrightarrow> R s sb"
    and step: "\<And>y s sb. y \<in> set ys \<Longrightarrow> R (state (f y s)) sb \<Longrightarrow>
        calls (f y sb) = filter P (calls (f y s)) \<and> raised (f y sb) = raised (f y s) \<and>
        (\<forall>sa. R sa sb \<longrightarrow> R sa (state (f y sb)))"
    and "R (state (forEach ys f s)) sb"
  shows "calls (forEach ys f sb) = filter P (calls (forEach ys f s)) \<and>
         raised (forEach ys f sb) = raised (forEach ys f s) \<and>
         (\<forall>sa. R sa sb \<longrightarrow> R sa (state (forEach ys f sb)))"
  using assms
proof (induction ys arbitrary: s sb)
  case Nil
  then show ?case by simp
next
  case (Cons y ys)
  have pull': "\<And>z s sb. z \<in> set ys \<Longrightarrow> R (state (f z s)) sb \<Longrightarrow> R s sb"
    by (rule Cons.prems(1)) simp_all
  have step': "\<And>z s sb. z \<in> set ys \<Longrightarrow> R (state (f z s)) sb \<Longrightarrow>
      calls (f z sb) = filter P (calls (f z s)) \<and> raised (f z sb) = raised (f z s) \<and>
      (\<forall>sa. R sa sb \<longrightarrow> R sa (state (f z sb)))"
    by (rule Cons.prems(2)) simp_all
  show ?case
  proof (cases "raised (f y s)")
    case (Some e)
    with Cons.prems(3) have "R (state (f y s)) sb"
      by (simp add: state_andThen)
    with Cons.prems(2) [of y s sb]
    have "calls (f y sb) = filter P (calls (f y s)) \<and> raised (f y sb) = raised (f y s) \<and>
        (\<forall>sa. R sa sb \<longrightarrow> R sa (state (f y sb)))"
      by simp
    with Some show ?thesis
      by (simp add: state_andThen calls_andThen raised_andThen)
  next
    case None
    let ?s1 = "state (f y s)"
    from None Cons.prems(3) have final: "R (state (forEach ys f ?s1)) sb"
      by (simp add: state_andThen)
    have "R ?s1 sb"
      using pull' final by (rule forEach_back)
    with Cons.prems(2) [of y s sb]
    have here: "calls (f y sb) = filter P (calls (f y s)) \<and>
        raised (f y sb) = raised (f y s) \<and> (\<forall>sa. R sa sb \<longrightarrow> R sa (state (f y sb)))"
      by simp
    with final have "R (state (forEach ys f ?s1)) (state (f y sb))"
      by blast
    with pull' step' have "calls (forEach ys f (state (f y sb))) =
        filter P (calls (forEach ys f ?s1)) \<and>
      raised (forEach ys f (state (f y sb))) = raised (forEach ys f ?s1) \<and>
      (\<forall>sa. R sa (state (f y sb)) \<longrightarrow> R sa (state (forEach ys f (state (f y sb)))))"
      by (rule Cons.IH)
    with here None show ?thesis
      by (simp add: state_andThen calls_andThen raised_andThen)
  qed
qed

subsection \<open>Replaying a frame\<close>

lemma setUniform_plain:
  "setUniform sys ent n d False s =
     Outcome s [SetUniform ent n d False]
       (if \<not> declares s ent n \<and> unknownUniformFatal sys then Some UnknownUniform else None)"
  by (simp add: setUniform_def)

lemma materialSystem_setUniform_static:
  assumes "same_static s sb"
  shows "calls (materialSystem_setUniform materialSystem ent n d False sb) =
           calls (materialSystem_setUniform materialSystem ent n d False s)"
    and "raised (materialSystem_setUniform materialSystem ent n d False sb) =
           raised (materialSystem_setUniform materialSystem ent n d False s)"
  by (simp_all add: materialSystem_setUniform_def setUniform_plain declares_static [OF assms]
      split: option.split)

lemma update_camera_uniforms_static:
  assumes "same_static s sb"
  shows "calls (update_camera_uniforms materialSystem cam v e ent sb) =
           calls (update_camera_uniforms materialSystem cam v e ent s)"
    and "raised (update_camera_uniforms materialSystem cam v e ent sb) =
           raised (update_camera_uniforms materialSystem cam v e ent s)"
  by (auto simp: update_camera_uniforms_def same_staticD [OF assms] calls_andThen
      raised_andThen materialSystem_setUniform_static [OF assms] split: option.split)

lemma plain_update_camera_uniforms:
  "filter (\<lambda>c. \<not> custom_push c)
     (calls (update_camera_uniforms materialSystem cam v e ent s)) =
   calls (update_camera_uniforms materialSystem cam v e ent s)"
  by (auto simp: filter_id_conv dest: calls_update_camera_uniforms)

lemma plain_update_uniforms:
  "filter (\<lambda>c. \<not> custom_push c) (calls (update_uniforms materialSystem ent mat s)) = []"
  by (rule filter_no_match) (auto dest: calls_update_uniforms)

lemma plain_bindVertexInputs:
  "filter (\<lambda>c. \<not> custom_push c) (calls (bindVertexInputs geo s)) =
     calls (bindVertexInputs geo s)"
  by (auto simp: filter_id_conv dest: calls_bindVertexInputs)

lemma plain_draw [simp]: "\<not> custom_push (draw e mat geo)"
  by (simp add: draw_def split: option.split)

lemma calls_bindVertexInputs_state:
  "calls (bindVertexInputs geo sb) = calls (bindVertexInputs geo s)"
  by (simp add: bindVertexInputs_def)

lemma update_uniform_Some:
  assumes "y \<in> set (material_uniforms s ent)"
  shows "raised (update_uniform (Some sys) ent y s) = None \<and>
         \<not> dirty (state (update_uniform (Some sys) ent y s)) y"
  using assms
  by (simp add: update_uniform_def materialSystem_setUniform_def setUniform_def
      declares_member dirty_clear_dirty) (simp add: dirty_def)

lemma update_uniforms_Some:
  assumes "set ys \<subseteq> set (material_uniforms s ent)"
  shows "raised (forEach ys (update_uniform (Some sys) ent) s) = None \<and>
         (\<forall>y \<in> set ys. \<not> dirty (state (forEach ys (update_uniform (Some sys) ent) s)) y)"
  using assms
proof (induction ys arbitrary: s)
  case Nil
  then show ?case by simp
next
  case (Cons y ys)
  let ?s1 = "state (update_uniform (Some sys) ent y s)"
  from Cons.prems have here: "raised (update_uniform (Some sys) ent y s) = None"
    "\<not> dirty ?s1 y"
    by (simp_all add: update_uniform_Some)
  have c1: "cleared s ?s1"
    by (rule clearsD [OF clears_update_uniform])
  with Cons.prems have "set ys \<subseteq> set (material_uniforms ?s1 ent)"
    by (simp add: material_uniforms_static [OF cleared_static])
  then have rest: "raised (forEach ys (update_uniform (Some sys) ent) ?s1) = None \<and>
      (\<forall>y \<in> set ys. \<not> dirty (state (forEach ys (update_uniform (Some sys) ent) ?s1)) y)"
    by (rule Cons.IH)
  have "cleared ?s1 (state (forEach ys (update_uniform (Some sys) ent) ?s1))"
    by (intro clearsD clears_forEach clears_update_uniform)
  with here(2) have "\<not> dirty (state (forEach ys (update_uniform (Some sys) ent) ?s1)) y"
    by (auto simp: cleared_def)
  with here rest show ?case
    by (simp add: raised_andThen state_andThen)
qed

lemma update_uniforms_clean:
  assumes "\<forall>y \<in> set ys. \<not> dirty sb y"
  shows "forEach ys (update_uniform materialSystem ent) sb = ok sb"
  using assms by (induction ys) (simp_all add: update_uniform_def dirty_def)

lemma update_uniforms_None:
  assumes "\<forall>y \<in> set ys. dirty sb y = dirty s y"
  shows "forEach ys (update_uniform None ent) sb =
           Outcome sb [] (raised (forEach ys (update_uniform None ent) s)) \<and>
         calls (forEach ys (update_uniform None ent) s) = [] \<and>
         state (forEach ys (update_uniform None ent) s) = s"
  using assms
proof (induction ys)
  case Nil
  then show ?case by (simp add: ok_def)
next
  case (Cons y ys)
  then show ?case
    by (cases "dirty s y")
      (simp_all add: update_uniform_def dirty_def materialSystem_setUniform_def throw_def
        ok_def)
qed

lemma replay_update_uniforms:
  assumes "replay materialSystem (state (update_uniforms materialSystem ent mat s)) sb"
    and "material s ent = Some mat"
  shows "update_uniforms materialSystem ent mat sb =
           Outcome sb [] (raised (update_uniforms materialSystem ent mat s))"
proof (cases materialSystem)
  case None
  have same: "state (update_uniforms None ent mat s) = s"
    using update_uniforms_None [of "concat (uniforms mat)" s s ent]
    by (simp add: update_uniforms_flat)
  with assms(1) None have "\<forall>x. dirty sb x = dirty s x"
    by (auto simp: replay_def cleared_def)
  then show ?thesis
    using None update_uniforms_None [of "concat (uniforms mat)" sb s ent]
    by (simp add: update_uniforms_flat)
next
  case (Some sys)
  let ?ys = "concat (uniforms mat)"
  have "set ?ys \<subseteq> set (material_uniforms s ent)"
    using assms(2) by (simp add: material_uniforms_def)
  then have fin: "raised (forEach ?ys (update_uniform (Some sys) ent) s) = None"
    and clean: "\<forall>y \<in> set ?ys. \<not> dirty (state (forEach ?ys (update_uniform (Some sys) ent) s)) y"
    using update_uniforms_Some [of ?ys s ent sys] by simp_all
  from assms(1) have "cleared (state (forEach ?ys (update_uniform (Some sys) ent) s)) sb"
    by (simp add: Some replay_def update_uniforms_flat)
  with clean have "\<forall>y \<in> set ?ys. \<not> dirty sb y"
    by (auto simp: cleared_def)
  then have "forEach ?ys (update_uniform materialSystem ent) sb = ok sb"
    by (rule update_uniforms_clean)
  with fin Some show ?thesis
    by (simp add: update_uniforms_flat ok_def)
qed

lemma replay_draw_mesh:
  assumes rp: "replay materialSystem (state (draw_mesh materialSystem cam v e m mat geo s)) sb"
    and mat: "material s (mesh_material m) = Some mat"
  shows "draw_mesh materialSystem cam v e m mat geo sb =
     Outcome sb
       (filter (\<lambda>c. \<not> custom_push c) (calls (draw_mesh materialSystem cam v e m mat geo s)))
       (raised (draw_mesh materialSystem cam v e m mat geo s))"
proof -
  let ?me = "mesh_material m"
  have "cleared s (state (draw_mesh materialSystem cam v e m mat geo s))"
    by (rule clearsD [OF clears_draw_mesh])
  with rp have "cleared s sb"
    by (blast intro: cleared_trans replay_cleared)
  then have st: "same_static s sb" by (rule cleared_static)
  note cam = update_camera_uniforms_static [OF st, of materialSystem cam v e ?me]
  show ?thesis
  proof (cases "raised (update_camera_uniforms materialSystem cam v e ?me s)")
    case (Some err)
    show ?thesis
      by (rule outcome.expand)
        (simp add: state_draw_mesh calls_draw_mesh raised_draw_mesh cam Some
          plain_update_camera_uniforms)
  next
    case None
    with rp have "replay materialSystem (state (update_uniforms materialSystem ?me mat s)) sb"
      by (simp add: state_draw_mesh)
    then have upd: "update_uniforms materialSystem ?me mat sb =
        Outcome sb [] (raised (update_uniforms materialSystem ?me mat s))"
      using mat by (rule replay_update_uniforms)
    show ?thesis
      by (rule outcome.expand)
        (simp add: state_draw_mesh calls_draw_mesh raised_draw_mesh cam None upd
          plain_update_camera_uniforms plain_update_uniforms plain_bindVertexInputs
          calls_bindVertexInputs_state [of geo sb s] split: option.split)
  qed
qed

lemma render_mesh_undrawable_static:
  assumes "same_static s sb" and "\<And>m mat geo. \<not> drawable s e m mat geo"
  shows "render_mesh materialSystem cam v e sb =
           Outcome sb [] (raised (render_mesh materialSystem cam v e s))"
  using assms(2)
  by (auto simp: drawable_def render_mesh_def render_ready_def ok_def throw_def
      visible_mesh_static [OF assms(1)] same_staticD [OF assms(1)] split: option.split)

lemma replay_render_mesh:
  assumes rp: "replay materialSystem (state (render_mesh materialSystem cam v e s)) sb"
  shows "render_mesh materialSystem cam v e sb =
     Outcome sb
       (filter (\<lambda>c. \<not> custom_push c) (calls (render_mesh materialSystem cam v e s)))
       (raised (render_mesh materialSystem cam v e s))"
proof -
  have "cleared s (state (render_mesh materialSystem cam v e s))"
    by (rule clearsD [OF clears_render_mesh])
  with rp have "cleared s sb"
    by (blast intro: cleared_trans replay_cleared)
  then have st: "same_static s sb" by (rule cleared_static)
  show ?thesis
  proof (cases "\<exists>m mat geo. drawable s e m mat geo")
    case False
    then have "render_mesh materialSystem cam v e sb =
        Outcome sb [] (raised (render_mesh materialSystem cam v e s))"
      by (intro render_mesh_undrawable_static [OF st]) blast
    moreover from False have "calls (render_mesh materialSystem cam v e s) = []"
      using render_mesh_undrawable [of s e materialSystem cam v] by blast
    ultimately show ?thesis by simp
  next
    case True
    then obtain m mat geo where d: "drawable s e m mat geo"
      by blast
    then have eq: "render_mesh materialSystem cam v e s =
        draw_mesh materialSystem cam v e m mat geo s"
      by (rule render_mesh_drawable)
    from d st have "drawable sb e m mat geo"
      by (simp add: drawable_static)
    then have eq': "render_mesh materialSystem cam v e sb =
        draw_mesh materialSystem cam v e m mat geo sb"
      by (rule render_mesh_drawable)
    from d have "material s (mesh_material m) = Some mat"
      by (simp add: drawable_def)
    with rp show ?thesis
      unfolding eq eq' by (rule replay_draw_mesh)
  qed
qed

lemma state_render_mesh_None: "state (render_mesh None cam v e s) = s"
proof (cases "\<exists>m mat geo. drawable s e m mat geo")
  case False
  then show ?thesis
    using render_mesh_undrawable [of s e None cam v] by blast
next
  case True
  then obtain m mat geo where d: "drawable s e m mat geo"
    by blast
  have "state (update_uniforms None (mesh_material m) mat s) = s"
    using update_uniforms_None [of "concat (uniforms mat)" s s "mesh_material m"]
    by (simp add: update_uniforms_flat)
  then show ?thesis
    by (simp add: render_mesh_drawable [OF d] state_draw_mesh)
qed

lemma replay_back_render_mesh:
  assumes "replay materialSystem (state (render_mesh materialSystem cam v e s)) sb"
  shows "replay materialSystem s sb"
  using assms
proof (rule replay_back)
  show "cleared s (state (render_mesh materialSystem cam v e s))"
    by (rule clearsD [OF clears_render_mesh])
  show "\<forall>x. dirty (state (render_mesh materialSystem cam v e s)) x = dirty s x"
    if "materialSystem = None"
    using that by (simp add: state_render_mesh_None)
qed

lemma replay_meshes:
  assumes "replay materialSystem
      (state (forEach es (render_mesh materialSystem cam v) s)) sb"
  shows "calls (forEach es (render_mesh materialSystem cam v) sb) =
           filter (\<lambda>c. \<not> custom_push c)
             (calls (forEach es (render_mesh materialSystem cam v) s)) \<and>
         raised (forEach es (render_mesh materialSystem cam v) sb) =
           raised (forEach es (render_mesh materialSystem cam v) s) \<and>
         (\<forall>sa. replay materialSystem sa sb \<longrightarrow>
            replay materialSystem sa (state (forEach es (render_mesh materialSystem cam v) sb)))"
proof (rule forEach_replay [where R = "replay materialSystem"])
  fix e s sb
  assume "replay materialSystem (state (render_mesh materialSystem cam v e s)) sb"
  then show "replay materialSystem s sb"
    by (rule replay_back_render_mesh)
next
  fix e s sb
  assume "replay materialSystem (state (render_mesh materialSystem cam v e s)) sb"
  then have "render_mesh materialSystem cam v e sb =
      Outcome sb
        (filter (\<lambda>c. \<not> custom_push c) (calls (render_mesh materialSystem cam v e s)))
        (raised (render_mesh materialSystem cam v e s))"
    by (rule replay_render_mesh)
  then show "calls (render_mesh materialSystem cam v e sb) =
        filter (\<lambda>c. \<not> custom_push c) (calls (render_mesh materialSystem cam v e s)) \<and>
      raised (render_mesh materialSystem cam v e sb) =
        raised (render_mesh materialSystem cam v e s) \<and>
      (\<forall>sa. replay materialSystem sa sb \<longrightarrow>
         replay materialSystem sa (state (render_mesh materialSystem cam v e sb)))"
    by simp
next
  show "replay materialSystem (state (forEach es (render_mesh materialSystem cam v) s)) sb"
    by fact
qed

lemma render_mesh_camera:
  "perspective cam' = perspective cam \<Longrightarrow>
     render_mesh materialSystem cam' v = render_mesh materialSystem cam v"
  by (intro ext)
    (simp add: render_mesh_def render_ready_def draw_mesh_def update_camera_uniforms_def
      cong: option.case_cong if_cong)

lemma flags_render_scene_None: "dirty (state (render_scene None sc s)) x = dirty s x"
proof (cases "camera s (scene_camera (snd sc))")
  case None
  then show ?thesis by (simp add: render_scene_def)
next
  case (Some cam)
  let ?t = "extractFromVPMatrix (scene_camera (snd sc)) cam
    (perspective cam * viewTransform cam) s"
  have "state (forEach (meshes (snd sc)) (render_mesh None cam (viewTransform cam)) ?t) = ?t"
    by (rule forEach_invariant [where I = "\<lambda>u. u = ?t"])
      (simp_all add: state_render_mesh_None)
  with Some show ?thesis by (simp add: render_scene_def)
qed

lemma replay_back_render_scene:
  assumes "replay materialSystem (state (render_scene materialSystem sc s)) sb"
  shows "replay materialSystem s sb"
  using assms
proof (rule replay_back)
  show "cleared s (state (render_scene materialSystem sc s))"
    by (rule clearsD [OF clears_render_scene])
  show "\<forall>x. dirty (state (render_scene materialSystem sc s)) x = dirty s x"
    if "materialSystem = None"
    using that by (simp add: flags_render_scene_None)
qed

lemma replay_extract:
  assumes "replay materialSystem sa sb" and "camera sb ent = Some cam"
  shows "replay materialSystem sa (extractFromVPMatrix ent cam vp sb)"
  using assms(1)
  by (rule replay_forward) (simp_all add: cleared_extract [OF assms(2)])

lemma replay_render_scene:
  assumes rp: "replay materialSystem (state (render_scene materialSystem sc s)) sb"
  shows "calls (render_scene materialSystem sc sb) =
           filter (\<lambda>c. \<not> custom_push c) (calls (render_scene materialSystem sc s)) \<and>
         raised (render_scene materialSystem sc sb) = raised (render_scene materialSystem sc s) \<and>
         (\<forall>sa. replay materialSystem sa sb \<longrightarrow>
            replay materialSystem sa (state (render_scene materialSystem sc sb)))"
proof -
  let ?cid = "scene_camera (snd sc)"
  have "cleared s (state (render_scene materialSystem sc s))"
    by (rule clearsD [OF clears_render_scene])
  with rp have "cleared s sb"
    by (blast intro: cleared_trans replay_cleared)
  then have st: "same_static s sb" by (rule cleared_static)
  show ?thesis
  proof (cases "camera s ?cid")
    case None
    with st have "camera sb ?cid = None"
      by (rule same_static_camera_None)
    with None show ?thesis by (simp add: render_scene_def)
  next
    case (Some cam)
    with st obtain cam' where cam': "camera sb ?cid = Some cam'"
      and v: "viewTransform cam' = viewTransform cam" and p: "perspective cam' = perspective cam"
      by (blast dest: same_static_camera)
    let ?vp = "perspective cam * viewTransform cam"
    let ?f = "render_mesh materialSystem cam (viewTransform cam)"
    let ?s2 = "extractFromVPMatrix ?cid cam ?vp s"
    let ?sb2 = "extractFromVPMatrix ?cid cam' ?vp sb"
    have s: "render_scene materialSystem sc s = forEach (meshes (snd sc)) ?f ?s2"
      using Some by (simp add: render_scene_def)
    have sb: "render_scene materialSystem sc sb = forEach (meshes (snd sc)) ?f ?sb2"
      using cam' by (simp add: render_scene_def v p render_mesh_camera [OF p])
    from rp have "replay materialSystem (state (forEach (meshes (snd sc)) ?f ?s2)) ?sb2"
      unfolding s using cam' by (rule replay_extract)
    then have "calls (forEach (meshes (snd sc)) ?f ?sb2) =
        filter (\<lambda>c. \<not> custom_push c) (calls (forEach (meshes (snd sc)) ?f ?s2)) \<and>
      raised (forEach (meshes (snd sc)) ?f ?sb2) = raised (forEach (meshes (snd sc)) ?f ?s2) \<and>
      (\<forall>sa. replay materialSystem sa ?sb2 \<longrightarrow>
         replay materialSystem sa (state (forEach (meshes (snd sc)) ?f ?sb2)))"
      by (rule replay_meshes)
    then show ?thesis
      unfolding s sb using replay_extract [OF _ cam'] by blast
  qed
qed

lemma replay_render:
  "calls (render systems (state (render systems s))) =
     filter (\<lambda>c. \<not> custom_push c) (calls (render systems s)) \<and>
   raised (render systems (state (render systems s))) = raised (render systems s)"
proof -
  let ?ms = "find_materialSystem systems"
  let ?s1 = "state (render systems s)"
  have "cleared s ?s1"
    unfolding state_render by (intro clearsD clears_forEach clears_render_scene)
  then have sc: "scene ?s1 = scene s"
    by (simp add: same_staticD [OF cleared_static])
  have "calls (forEach (scene s) (render_scene ?ms) ?s1) =
      filter (\<lambda>c. \<not> custom_push c) (calls (forEach (scene s) (render_scene ?ms) s)) \<and>
    raised (forEach (scene s) (render_scene ?ms) ?s1) =
      raised (forEach (scene s) (render_scene ?ms) s) \<and>
    (\<forall>sa. replay ?ms sa ?s1 \<longrightarrow>
       replay ?ms sa (state (forEach (scene s) (render_scene ?ms) ?s1)))"
  proof (rule forEach_replay [where R = "replay ?ms"])
    fix sc s sb
    assume "replay ?ms (state (render_scene ?ms sc s)) sb"
    then show "replay ?ms s sb" by (rule replay_back_render_scene)
  next
    fix sc s sb
    assume "replay ?ms (state (render_scene ?ms sc s)) sb"
    then show "calls (render_scene ?ms sc sb) =
          filter (\<lambda>c. \<not> custom_push c) (calls (render_scene ?ms sc s)) \<and>
        raised (render_scene ?ms sc sb) = raised (render_scene ?ms sc s) \<and>
        (\<forall>sa. replay ?ms sa sb \<longrightarrow> replay ?ms sa (state (render_scene ?ms sc sb)))"
      by (rule replay_render_scene)
  next
    show "replay ?ms (state (forEach (scene s) (render_scene ?ms) s)) ?s1"
      by (simp add: state_render)
  qed
  then show ?thesis
    by (simp add: calls_render [of systems ?s1] raised_render [of systems ?s1] sc
        calls_render [of systems s] raised_render [of systems s])
qed

subsection \<open>The uniform entries of the concrete frame\<close>

lemma demo_uniform_entries:
  "concat (uniforms demo_material) = [0, 1, 2, 3]"
  "uniform_objs demo_store = demo_uniforms"
  "demo_uniforms 0 = \<lparr>uniform_name = ''projectionMatrix'', uniform_dirty = False, uniform_data = 0\<rparr>"
  "demo_uniforms 1 = \<lparr>uniform_name = ''modelViewMatrix'', uniform_dirty = False, uniform_data = 0\<rparr>"
  "demo_uniforms (Suc 0) = \<lparr>uniform_name = ''modelViewMatrix'', uniform_dirty = False, uniform_data = 0\<rparr>"
  "demo_uniforms 2 = \<lparr>uniform_name = ''color'', uniform_dirty = True, uniform_data = 9\<rparr>"
  "demo_uniforms 3 = \<lparr>uniform_name = ''opacity'', uniform_dirty = False, uniform_data = 1\<rparr>"
  by (simp_all add: demo_material_def demo_store_def demo_uniforms_def)

subsection \<open>The calls of a mesh within the calls of the frame\<close>

lemma forEach_segment:
  assumes "I s" and "raised (forEach xs f s) = None" and "x \<in> set xs"
    and "\<And>y t. y \<in> set xs \<Longrightarrow> I t \<Longrightarrow> I (state (f y t))"
  shows "\<exists>t pre post. I t \<and> raised (f x t) = None \<and>
           calls (forEach xs f s) = pre @ calls (f x t) @ post"
  using assms
proof (induction xs arbitrary: s)
  case Nil
  then show ?case by simp
next
  case (Cons y ys)
  from Cons.prems(2) have r: "raised (f y s) = None"
    and r': "raised (forEach ys f (state (f y s))) = None"
    by (simp_all add: raised_andThen_None)
  show ?case
  proof (cases "x = y")
    case True
    have "calls (forEach (y # ys) f s) = [] @ calls (f x s) @ calls (forEach ys f (state (f y s)))"
      using r True by (simp add: calls_andThen)
    with Cons.prems(1) r True show ?thesis by blast
  next
    case False
    with Cons.prems(3) have x: "x \<in> set ys" by simp
    have i: "I (state (f y s))"
      by (rule Cons.prems(4)) (simp_all add: Cons.prems(1))
    have "\<exists>t pre post. I t \<and> raised (f x t) = None \<and>
        calls (forEach ys f (state (f y s))) = pre @ calls (f x t) @ post"
    proof (rule Cons.IH [OF i r' x])
      fix z t
      assume "z \<in> set ys" "I t"
      then show "I (state (f z t))" using Cons.prems(4) [of z t] by simp
    qed
    then obtain t pre post where "I t" "raised (f x t) = None"
      "calls (forEach ys f (state (f y s))) = pre @ calls (f x t) @ post"
      by blast
    then have "I t \<and> raised (f x t) = None \<and>
        calls (forEach (y # ys) f s) = (calls (f y s) @ pre) @ calls (f x t) @ post"
      using r by (simp add: calls_andThen)
    then show ?thesis by blast
  qed
qed

lemma frame_segment:
  assumes r: "raised (render systems s) = None"
    and sc: "sc \<in> set (scene s)" and e: "e \<in> set (meshes (snd sc))"
    and cam: "camera s (scene_camera (snd sc)) = Some cam"
  shows "\<exists>t pre post. cleared s t \<and>
           raised (render_mesh (find_materialSystem systems) cam (viewTransform cam) e t) = None \<and>
           calls (render systems s) =
             pre @ calls (render_mesh (find_materialSystem systems) cam (viewTransform cam) e t) @
             post"
proof -
  let ?ms = "find_materialSystem systems"
  have "\<exists>t pre post. cleared s t \<and> raised (render_scene ?ms sc t) = None \<and>
      calls (forEach (scene s) (render_scene ?ms) s) = pre @ calls (render_scene ?ms sc t) @ post"
  proof (rule forEach_segment [where I = "cleared s"])
    show "raised (forEach (scene s) (render_scene ?ms) s) = None"
      using r by (simp add: raised_render)
  next
    fix y t
    assume "cleared s t"
    then show "cleared s (state (render_scene ?ms y t))"
      using clearsD [OF clears_render_scene] by (rule cleared_trans)
  qed (simp_all add: sc)
  then obtain t1 pre1 post1 where t1: "cleared s t1"
    and r1: "raised (render_scene ?ms sc t1) = None"
    and c1: "calls (forEach (scene s) (render_scene ?ms) s) =
      pre1 @ calls (render_scene ?ms sc t1) @ post1"
    by blast
  from t1 cam obtain cam1 where cam1: "camera t1 (scene_camera (snd sc)) = Some cam1"
    and v: "viewTransform cam1 = viewTransform cam" and p: "perspective cam1 = perspective cam"
    by (blast dest: same_static_camera cleared_static)
  let ?f = "render_mesh ?ms cam (viewTransform cam)"
  let ?t2 = "extractFromVPMatrix (scene_camera (snd sc)) cam1
    (perspective cam * viewTransform cam) t1"
  have eq: "render_scene ?ms sc t1 = forEach (meshes (snd sc)) ?f ?t2"
    using cam1 by (simp add: render_scene_def v p render_mesh_camera [OF p])
  have "\<exists>t pre post. cleared s t \<and> raised (?f e t) = None \<and>
      calls (forEach (meshes (snd sc)) ?f ?t2) = pre @ calls (?f e t) @ post"
  proof (rule forEach_segment [where I = "cleared s"])
    show "cleared s ?t2"
      using t1 cleared_extract [OF cam1] by (rule cleared_trans)
    show "raised (forEach (meshes (snd sc)) ?f ?t2) = None"
      using r1 by (simp add: eq)
  next
    fix y t
    assume "cleared s t"
    then show "cleared s (state (?f y t))"
      using clearsD [OF clears_render_mesh] by (rule cleared_trans)
  qed (simp_all add: e)
  then obtain t pre post where t: "cleared s t" and rt: "raised (?f e t) = None"
    and c: "calls (forEach (meshes (snd sc)) ?f ?t2) = pre @ calls (?f e t) @ post"
    by blast
  have "calls (render systems s) =
      (Clear black True True True # pre1 @ pre) @ calls (?f e t) @ (post @ post1)"
    by (simp add: calls_render c1 eq c)
  with t rt show ?thesis by blast
qed

subsection \<open>Bounds on the draw calls of a mesh\<close>

lemma forEach_filter_le:
  assumes "I s"
    and "\<And>x s. x \<in> set xs \<Longrightarrow> I s \<Longrightarrow> I (state (f x s))"
    and "\<And>x s. x \<in> set xs \<Longrightarrow> I s \<Longrightarrow> length (filter Q (calls (f x s))) \<le> k x"
  shows "length (filter Q (calls (forEach xs f s))) \<le> sum_list (map k xs)"
  using assms
proof (induction xs arbitrary: s)
  case Nil
  then show ?case by simp
next
  case (Cons x xs)
  have here: "length (filter Q (calls (f x s))) \<le> k x"
    using Cons.prems(1) Cons.prems(3) [of x s] by simp
  have "I (state (f x s))"
    by (rule Cons.prems(2)) (simp_all add: Cons.prems(1))
  then have "length (filter Q (calls (forEach xs f (state (f x s))))) \<le> sum_list (map k xs)"
  proof (rule Cons.IH)
    fix y s'
    assume "y \<in> set xs" "I s'"
    then show "I (state (f y s'))" using Cons.prems(2) [of y s'] by simp
  next
    fix y s'
    assume "y \<in> set xs" "I s'"
    then show "length (filter Q (calls (f y s'))) \<le> k y" using Cons.prems(3) [of y s'] by simp
  qed
  with here show ?case
    by (simp add: calls_andThen)
qed

lemma scene_filter_le:
  assumes "cleared s0 s"
    and step: "\<And>cam v x s'. x \<in> set (meshes (snd sc)) \<Longrightarrow> cleared s0 s' \<Longrightarrow>
           length (filter Q (calls (render_mesh materialSystem cam v x s'))) \<le> k x"
  shows "length (filter Q (calls (render_scene materialSystem sc s))) \<le>
           sum_list (map k (meshes (snd sc)))"
proof (cases "camera s (scene_camera (snd sc))")
  case None
  then show ?thesis by (simp add: render_scene_def)
next
  case (Some cam)
  let ?s = "extractFromVPMatrix (scene_camera (snd sc)) cam (perspective cam * viewTransform cam) s"
  have "length (filter Q (calls (forEach (meshes (snd sc))
      (render_mesh materialSystem cam (viewTransform cam)) ?s))) \<le>
      sum_list (map k (meshes (snd sc)))"
  proof (rule forEach_filter_le [where I = "cleared s0"])
    show "cleared s0 ?s"
      using assms(1) cleared_extract [OF Some] by (rule cleared_trans)
  next
    fix x s'
    assume "cleared s0 s'"
    then show "cleared s0 (state (render_mesh materialSystem cam (viewTransform cam) x s'))"
      using clearsD [OF clears_render_mesh] by (rule cleared_trans)
  next
    fix x s'
    assume "x \<in> set (meshes (snd sc))" "cleared s0 s'"
    then show "length (filter Q (calls (render_mesh materialSystem cam (viewTransform cam) x s')))
        \<le> k x"
      by (rule step)
  qed
  with Some show ?thesis by (simp add: render_scene_def)
qed

lemma frame_filter_le:
  assumes step: "\<And>cam v x s'. x \<in> set (frame_meshes s) \<Longrightarrow> cleared s s' \<Longrightarrow>
           length (filter Q (calls (render_mesh materialSystem cam v x s'))) \<le> k x"
  shows "length (filter Q (calls (forEach (scene s) (render_scene materialSystem) s))) \<le>
           sum_list (map k (frame_meshes s))"
proof -
  have "length (filter Q (calls (forEach (scene s) (render_scene materialSystem) s))) \<le>
      sum_list (map (\<lambda>sc. sum_list (map k (meshes (snd sc)))) (scene s))"
  proof (rule forEach_filter_le [where I = "cleared s"])
    show "cleared s s" by simp
  next
    fix sc s'
    assume "cleared s s'"
    then show "cleared s (state (render_scene materialSystem sc s'))"
      using clearsD [OF clears_render_scene] by (rule cleared_trans)
  next
    fix sc s'
    assume sc: "sc \<in> set (scene s)" and s': "cleared s s'"
    show "length (filter Q (calls (render_scene materialSystem sc s'))) \<le>
        sum_list (map k (meshes (snd sc)))"
      using s'
    proof (rule scene_filter_le)
      fix cam v x s''
      assume "x \<in> set (meshes (snd sc))" "cleared s s''"
      with sc show "length (filter Q (calls (render_mesh materialSystem cam v x s''))) \<le> k x"
        by (intro step mesh_in_frame)
    qed
  qed
  then show ?thesis
    by (simp add: sum_list_frame_meshes frame_meshes_def)
qed

lemma draws_of_render_mesh_le:
  "length (filter (is_draw_of e) (calls (render_mesh materialSystem cam v x s))) \<le>
     (if x = e then 1 else 0)"
proof (cases "\<exists>m mat geo. drawable s x m mat geo")
  case False
  then have "calls (render_mesh materialSystem cam v x s) = []"
    using render_mesh_cases [of materialSystem cam v x s] by blast
  then show ?thesis by simp
next
  case True
  then obtain m mat geo where "drawable s x m mat geo"
    by blast
  then have eq: "render_mesh materialSystem cam v x s =
      draw_mesh materialSystem cam v x m mat geo s"
    by (rule render_mesh_drawable)
  have "filter (is_draw_of e) (calls (draw_mesh materialSystem cam v x m mat geo s)) =
      filter (is_draw_of e)
        (if raised (draw_mesh materialSystem cam v x m mat geo s) = None
         then [draw x mat geo] else [])"
    by (subst draws_of_draws) (simp add: draws_draw_mesh)
  then show ?thesis
    by (simp add: eq)
qed

lemma frame_draw_le:
  "length (filter (is_draw_of e) (calls (render systems s))) \<le> count_list (frame_meshes s) e"
proof -
  have "length (filter (is_draw_of e)
      (calls (forEach (scene s) (render_scene (find_materialSystem systems)) s))) \<le>
      sum_list (map (\<lambda>x. if x = e then 1 else 0) (frame_meshes s))"
    by (rule frame_filter_le) (rule draws_of_render_mesh_le)
  then show ?thesis
    by (simp add: calls_render sum_list_count_list)
qed

lemma drawable_unique:
  assumes "drawable s e m mat geo" and "drawable s e m' mat' geo'"
  shows "m' = m \<and> mat' = mat \<and> geo' = geo"
  using assms by (auto simp: drawable_def)

lemma frame_draws_same:
  assumes "drawable s e m mat geo"
  shows "filter (is_draw_of e) (calls (render systems s)) =
           replicate (length (filter (is_draw_of e) (calls (render systems s)))) (draw e mat geo)"
proof -
  have "\<forall>c \<in> set (filter (is_draw_of e) (calls (render systems s))). c = draw e mat geo"
  proof
    fix c
    assume "c \<in> set (filter (is_draw_of e) (calls (render systems s)))"
    then obtain m' mat' geo' where "drawable s e m' mat' geo'" and "c = draw e mat' geo'"
      by (auto dest: frame_draws_of)
    with assms show "c = draw e mat geo"
      by (auto dest: drawable_unique)
  qed
  then show ?thesis
    by (simp add: replicate_length_same)
qed

lemma twice_calls:
  "calls (render demo_systems twice_store) =
     [Clear black True True True,
      SetUniform 10 ''color'' 9 True,
      SetRenderBindGroups [200],
      DrawArraysType ''render-3-arrays'' (descriptor demo_material demo_triangle None) 0 3 4,
      SetRenderBindGroups [200],
      DrawArraysType ''render-3-arrays'' (descriptor demo_material demo_triangle None) 0 3 4]"
  by code_simp

lemma twice_lookups:
  "cullable twice_store 3 = Some \<lparr>visible = True\<rparr>"
  "mesh twice_store 3 = Some \<lparr>mesh_material = 10, mesh_geometry = 21\<rparr>"
  "material twice_store 10 = Some demo_material"
  "geometry twice_store 21 = Some demo_triangle"
  "frame_meshes twice_store = [3, 3]"
  by (simp_all add: twice_store_def demo_store_def frame_meshes_def)

lemma dangling_mesh_2:
  "cullable dangling_store 2 = Some \<lparr>visible = True\<rparr>"
  "mesh dangling_store 2 = Some \<lparr>mesh_material = 10, mesh_geometry = 20\<rparr>"
  "material dangling_store 10 = Some demo_material"
  "geometry dangling_store 20 = Some demo_indexed"
  by (simp_all add: dangling_store_def demo_store_def)

subsection \<open>Pushes under a given name\<close>

lemma clear_dirty_sel [simp]:
  "uniform_name (uniform_objs (clear_dirty s ent n) z) = uniform_name (uniform_objs s z)"
  "uniform_data (uniform_objs (clear_dirty s ent n) z) = uniform_data (uniform_objs s z)"
  "uniform_dirty (uniform_objs (clear_dirty s ent n) z) \<longleftrightarrow>
     uniform_dirty (uniform_objs s z) \<and>
     \<not> (z \<in> set (material_uniforms s ent) \<and> uniform_name (uniform_objs s z) = n)"
  "material_uniforms (clear_dirty s ent n) ent' = material_uniforms s ent'"
  by (simp_all add: clear_dirty_def material_uniforms_def)

lemma update_uniform_dirty:
  assumes "y \<in> set (material_uniforms s ent)" and "uniform_dirty (uniform_objs s y)"
    and "raised (update_uniform materialSystem ent y s) = None"
  shows "update_uniform materialSystem ent y s =
           Outcome (clear_dirty s ent (uniform_name (uniform_objs s y)))
             [SetUniform ent (uniform_name (uniform_objs s y))
                (uniform_data (uniform_objs s y)) True] None"
proof -
  from assms(2,3) obtain sys where "materialSystem = Some sys"
    by (cases materialSystem) (simp_all add: update_uniform_def materialSystem_setUniform_def)
  with assms(1,2) show ?thesis
    by (simp add: update_uniform_def materialSystem_setUniform_def setUniform_def
        declares_member)
qed

lemma pushes_named_loop:
  assumes "set ys \<subseteq> set (material_uniforms s ent)"
    and "raised (forEach ys (update_uniform materialSystem ent) s) = None"
  shows "filter (is_push ent n) (calls (forEach ys (update_uniform materialSystem ent) s)) =
     (case find (\<lambda>y. uniform_name (uniform_objs s y) = n \<and> uniform_dirty (uniform_objs s y)) ys of
        None \<Rightarrow> []
      | Some y \<Rightarrow> [SetUniform ent n (uniform_data (uniform_objs s y)) True])"
  using assms
proof (induction ys arbitrary: s)
  case Nil
  then show ?case by simp
next
  case (Cons y ys)
  let ?f = "update_uniform materialSystem ent"
  from Cons.prems(2) have r: "raised (?f y s) = None"
    and r': "raised (forEach ys ?f (state (?f y s))) = None"
    by (simp_all add: raised_andThen_None)
  from Cons.prems(1) have y: "y \<in> set (material_uniforms s ent)"
    and ys: "set ys \<subseteq> set (material_uniforms s ent)"
    by simp_all
  show ?case
  proof (cases "uniform_dirty (uniform_objs s y)")
    case False
    then have eq: "?f y s = ok s"
      by (simp add: update_uniform_def)
    from Cons.IH [OF ys] r' False show ?thesis
      by (simp add: eq)
  next
    case True
    let ?s = "clear_dirty s ent (uniform_name (uniform_objs s y))"
    have eq: "?f y s = Outcome ?s
        [SetUniform ent (uniform_name (uniform_objs s y)) (uniform_data (uniform_objs s y)) True]
        None"
      using y True r by (rule update_uniform_dirty)
    have rest: "filter (is_push ent n) (calls (forEach ys ?f ?s)) =
       (case find (\<lambda>z. uniform_name (uniform_objs ?s z) = n \<and> uniform_dirty (uniform_objs ?s z)) ys of
          None \<Rightarrow> []
        | Some z \<Rightarrow> [SetUniform ent n (uniform_data (uniform_objs ?s z)) True])"
    proof (rule Cons.IH)
      show "set ys \<subseteq> set (material_uniforms ?s ent)" using ys by simp
      show "raised (forEach ys ?f ?s) = None" using r' by (simp add: eq)
    qed
    show ?thesis
    proof (cases "uniform_name (uniform_objs s y) = n")
      case same: True
      have "find (\<lambda>z. uniform_name (uniform_objs ?s z) = n \<and> uniform_dirty (uniform_objs ?s z)) ys
          = None"
        using ys same by (auto simp: find_None_iff)
      with rest same True show ?thesis
        by (simp add: eq)
    next
      case other: False
      have "find (\<lambda>z. uniform_name (uniform_objs ?s z) = n \<and> uniform_dirty (uniform_objs ?s z)) ys
          = find (\<lambda>z. uniform_name (uniform_objs s z) = n \<and> uniform_dirty (uniform_objs s z)) ys"
        using other by (intro find_cong) auto
      with rest other show ?thesis
        by (simp add: eq cong: option.case_cong)
    qed
  qed
qed

lemma pushes_named_update_uniforms:
  assumes "material s ent = Some mat"
    and "raised (update_uniforms materialSystem ent mat s) = None"
  shows "filter (is_push ent n) (calls (update_uniforms materialSystem ent mat s)) =
           marked_push s ent mat n"
proof -
  from assms(1) have "set (concat (uniforms mat)) \<subseteq> set (material_uniforms s ent)"
    by (simp add: material_uniforms_def)
  moreover from assms(2)
  have "raised (forEach (concat (uniforms mat)) (update_uniform materialSystem ent) s) = None"
    by (simp add: update_uniforms_flat)
  ultimately show ?thesis
    unfolding update_uniforms_flat marked_push_def by (rule pushes_named_loop)
qed

lemma pushes_named_bindVertexInputs [simp]:
  "filter (is_push ent n) (calls (bindVertexInputs geo s)) = []"
  by (rule filter_no_match) (auto dest: calls_bindVertexInputs)

lemma is_push_draw [simp]: "\<not> is_push ent n (draw e mat geo)"
  by (simp add: draw_def split: option.split)

lemma pushes_named_draw_mesh:
  assumes mat: "material s (mesh_material m) = Some mat"
    and r: "raised (draw_mesh materialSystem cam viewMatrix e m mat geo s) = None"
  shows "filter (is_push (mesh_material m) ''projectionMatrix'')
           (calls (draw_mesh materialSystem cam viewMatrix e m mat geo s)) =
         (case transform s e of
            None \<Rightarrow> []
          | Some tr \<Rightarrow>
              [SetUniform (mesh_material m) ''projectionMatrix'' (perspective cam) False]) @
         marked_push s (mesh_material m) mat ''projectionMatrix''"
    and "filter (is_push (mesh_material m) ''modelViewMatrix'')
           (calls (draw_mesh materialSystem cam viewMatrix e m mat geo s)) =
         (case transform s e of
            None \<Rightarrow> []
          | Some tr \<Rightarrow>
              [SetUniform (mesh_material m) ''modelViewMatrix''
                 (viewMatrix * worldTransform tr) False]) @
         marked_push s (mesh_material m) mat ''modelViewMatrix''"
proof -
  from r have rc: "raised (update_camera_uniforms materialSystem cam viewMatrix e
      (mesh_material m) s) = None"
    and ru: "raised (update_uniforms materialSystem (mesh_material m) mat s) = None"
    by (simp_all add: raised_draw_mesh split: option.splits)
  note loop = pushes_named_update_uniforms [OF mat ru]
  show "filter (is_push (mesh_material m) ''projectionMatrix'')
           (calls (draw_mesh materialSystem cam viewMatrix e m mat geo s)) =
         (case transform s e of
            None \<Rightarrow> []
          | Some tr \<Rightarrow>
              [SetUniform (mesh_material m) ''projectionMatrix'' (perspective cam) False]) @
         marked_push s (mesh_material m) mat ''projectionMatrix''"
    using r rc
    by (simp add: calls_draw_mesh calls_update_camera_uniforms_ok loop split: option.split)
  show "filter (is_push (mesh_material m) ''modelViewMatrix'')
           (calls (draw_mesh materialSystem cam viewMatrix e m mat geo s)) =
         (case transform s e of
            None \<Rightarrow> []
          | Some tr \<Rightarrow>
              [SetUniform (mesh_material m) ''modelViewMatrix''
                 (viewMatrix * worldTransform tr) False]) @
         marked_push s (mesh_material m) mat ''modelViewMatrix''"
    using r rc
    by (simp add: calls_draw_mesh calls_update_camera_uniforms_ok loop split: option.split)
qed

lemma marked_push_cleared:
  assumes "cleared s t" and "marked_push s ent mat n = []"
  shows "marked_push t ent mat n = []"
proof -
  from assms(1) have st: "same_static s t" and fl: "\<And>x. dirty t x \<Longrightarrow> dirty s x"
    by (simp_all add: cleared_def)
  from assms(2) have "\<forall>y \<in> set (concat (uniforms mat)).
      \<not> (uniform_name (uniform_objs s y) = n \<and> uniform_dirty (uniform_objs s y))"
    by (auto simp: marked_push_def find_None_iff split: option.splits)
  with fl have "\<forall>y \<in> set (concat (uniforms mat)).
      \<not> (uniform_name (uniform_objs t y) = n \<and> uniform_dirty (uniform_objs t y))"
    by (auto simp: same_staticD [OF st] dirty_def)
  then have "find (\<lambda>y. uniform_name (uniform_objs t y) = n \<and> uniform_dirty (uniform_objs t y))
      (concat (uniforms mat)) = None"
    unfolding find_None_iff by blast
  then show ?thesis
    by (simp add: marked_push_def)
qed

lemma stale_calls:
  "calls (render demo_systems stale_store) =
     [Clear black True True True,
      SetUniform 10 ''projectionMatrix'' 7 False,
      SetUniform 10 ''modelViewMatrix'' 15 False,
      SetUniform 10 ''projectionMatrix'' 0 True,
      SetUniform 10 ''color'' 9 True,
      SetRenderBindGroups [200],
      BindVertexInputs \<lparr>indexBuffer = Some 101, indexOffset = 0, vertexStartSlot = 0,
        vertexBuffers = [100], vertexOffsets = [0]\<rparr>,
      DrawElementsType ''render-2-elements''
        (descriptor demo_material demo_indexed (Some ''uint32'')) 0 6 1]"
  by code_simp

lemma stale_lookups:
  "cullable stale_store 2 = Some \<lparr>visible = True\<rparr>"
  "mesh stale_store 2 = Some \<lparr>mesh_material = 10, mesh_geometry = 20\<rparr>"
  "material stale_store 10 = Some demo_material"
  "geometry stale_store 20 = Some demo_indexed"
  "transform stale_store 2 = Some \<lparr>worldTransform = 3\<rparr>"
  "uniform_objs stale_store 0 =
     \<lparr>uniform_name = ''projectionMatrix'', uniform_dirty = True, uniform_data = 0\<rparr>"
  by (simp_all add: stale_store_def demo_store_def stale_uniforms_def)

lemma stale_mesh_2:
  "raised (render_mesh (find_materialSystem demo_systems) demo_camera 5 2 stale_store) = None"
  by code_simp

lemma stale_marked:
  "marked_push stale_store 10 demo_material ''projectionMatrix'' =
     [SetUniform 10 ''projectionMatrix'' 0 True]"
  "marked_push stale_store 10 demo_material ''modelViewMatrix'' = []"
  by code_simp+

lemma demo_marked:
  "marked_push demo_store 10 demo_material ''projectionMatrix'' = []"
  "marked_push demo_store 10 demo_material ''modelViewMatrix'' = []"
  by code_simp+

subsection \<open>One uniform entry through a frame\<close>

lemma once_if_append:
  assumes "once_if (d \<and> g1) R (filter Q cs1)" and "once_if (d1 \<and> g2) R (filter Q cs2)"
    and "d1 = (d \<and> \<not> g1)"
  shows "once_if (d \<and> (g1 \<or> g2)) R (filter Q (cs1 @ cs2))"
  using assms by (auto simp: once_if_def split: if_splits)

lemma forEach_once_drawn:
  assumes "I s"
    and step: "\<And>y t. y \<in> set ys \<Longrightarrow> I t \<Longrightarrow>
      I (state (f y t)) \<and>
      once_if (D t \<and> (\<exists>c \<in> set (calls (f y t)). G c)) R (filter Q (calls (f y t))) \<and>
      D (state (f y t)) = (D t \<and> \<not> (\<exists>c \<in> set (calls (f y t)). G c))"
  shows "I (state (forEach ys f s)) \<and>
         once_if (D s \<and> (\<exists>c \<in> set (calls (forEach ys f s)). G c)) R
           (filter Q (calls (forEach ys f s))) \<and>
         D (state (forEach ys f s)) = (D s \<and> \<not> (\<exists>c \<in> set (calls (forEach ys f s)). G c))"
  using assms
proof (induction ys arbitrary: s)
  case Nil
  then show ?case by (simp add: once_if_def)
next
  case (Cons y ys)
  have here: "I (state (f y s)) \<and>
      once_if (D s \<and> (\<exists>c \<in> set (calls (f y s)). G c)) R (filter Q (calls (f y s))) \<and>
      D (state (f y s)) = (D s \<and> \<not> (\<exists>c \<in> set (calls (f y s)). G c))"
    by (rule Cons.prems(2)) (simp_all add: Cons.prems(1))
  show ?case
  proof (cases "raised (f y s) = None")
    case False
    then have "state (forEach (y # ys) f s) = state (f y s)"
      and "calls (forEach (y # ys) f s) = calls (f y s)"
      by (auto simp: state_andThen calls_andThen)
    with here show ?thesis by simp
  next
    case True
    let ?s = "state (f y s)"
    have rest: "I (state (forEach ys f ?s)) \<and>
        once_if (D ?s \<and> (\<exists>c \<in> set (calls (forEach ys f ?s)). G c)) R
          (filter Q (calls (forEach ys f ?s))) \<and>
        D (state (forEach ys f ?s)) = (D ?s \<and> \<not> (\<exists>c \<in> set (calls (forEach ys f ?s)). G c))"
    proof (rule Cons.IH)
      show "I ?s" using here by simp
    next
      fix z t
      assume "z \<in> set ys" "I t"
      then show "I (state (f z t)) \<and>
          once_if (D t \<and> (\<exists>c \<in> set (calls (f z t)). G c)) R (filter Q (calls (f z t))) \<and>
          D (state (f z t)) = (D t \<and> \<not> (\<exists>c \<in> set (calls (f z t)). G c))"
        using Cons.prems(2) [of z t] by simp
    qed
    from True have st: "state (forEach (y # ys) f s) = state (forEach ys f ?s)"
      and cs: "calls (forEach (y # ys) f s) = calls (f y s) @ calls (forEach ys f ?s)"
      by (simp_all add: state_andThen calls_andThen)
    have "once_if (D s \<and> ((\<exists>c \<in> set (calls (f y s)). G c) \<or>
        (\<exists>c \<in> set (calls (forEach ys f ?s)). G c))) R
        (filter Q (calls (f y s) @ calls (forEach ys f ?s)))"
      using here rest by (intro once_if_append) simp_all
    moreover have "(\<exists>c \<in> set (calls (f y s) @ calls (forEach ys f ?s)). G c) \<longleftrightarrow>
        (\<exists>c \<in> set (calls (f y s)). G c) \<or> (\<exists>c \<in> set (calls (forEach ys f ?s)). G c)"
      by auto
    ultimately show ?thesis
      using here rest unfolding st cs by simp
  qed
qed

text \<open>
  The entry \<open>x\<close> is fixed, with the hypotheses of \<open>tracked\<close>; the stores are those that a frame
  started in \<open>s\<close> goes through.
\<close>

lemma tracked_name:
  assumes "tracked s x" and "x \<in> set (material_uniforms s ent)"
    and "y \<in> set (material_uniforms s ent)"
  shows "uniform_name (uniform_objs s y) = uniform_name (uniform_objs s x) \<longleftrightarrow> y = x"
  using assms unfolding tracked_def by blast

lemma update_uniform_entry:
  assumes tr: "tracked s x" and x: "x \<in> set (material_uniforms s ent)"
    and y: "y \<in> set (material_uniforms s ent)" and t: "cleared s t"
    and r: "raised (update_uniform materialSystem ent y t) = None"
  shows "cleared s (state (update_uniform materialSystem ent y t)) \<and>
         filter (is_push_of s x) (calls (update_uniform materialSystem ent y t)) =
           (if dirty t x \<and> y = x then [the_push s ent x] else []) \<and>
         dirty (state (update_uniform materialSystem ent y t)) x = (dirty t x \<and> y \<noteq> x)"
proof -
  from t have st: "same_static s t" by (rule cleared_static)
  have inv: "cleared s (state (update_uniform materialSystem ent y t))"
    using t clearsD [OF clears_update_uniform] by (rule cleared_trans)
  note names = tracked_name [OF tr x y]
  show ?thesis
  proof (cases "uniform_dirty (uniform_objs t y)")
    case False
    then have "update_uniform materialSystem ent y t = ok t"
      by (simp add: update_uniform_def)
    with False t show ?thesis
      by (auto simp: dirty_def)
  next
    case True
    have "y \<in> set (material_uniforms t ent)"
      using y by (simp add: material_uniforms_static [OF st])
    from update_uniform_dirty [OF this True r] True x names inv show ?thesis
      by (auto simp: dirty_def the_push_def same_staticD [OF st]
          material_uniforms_static [OF st])
  qed
qed

lemma update_uniforms_own:
  assumes tr: "tracked s x" and t: "cleared s t"
    and mat: "material s ent = Some mat" and x: "x \<in> set (concat (uniforms mat))"
    and r: "raised (update_uniforms materialSystem ent mat t) = None"
  shows "filter (is_push_of s x) (calls (update_uniforms materialSystem ent mat t)) =
           (if dirty t x then [the_push s ent x] else []) \<and>
         \<not> dirty (state (update_uniforms materialSystem ent mat t)) x"
proof -
  let ?f = "update_uniform materialSystem ent"
  let ?ys = "concat (uniforms mat)"
  from mat have mu: "material_uniforms s ent = ?ys"
    by (simp add: material_uniforms_def)
  have "cleared s (state (forEach ?ys ?f t)) \<and>
      filter (is_push_of s x) (calls (forEach ?ys ?f t)) =
        (if dirty t x \<and> (\<exists>y \<in> set ?ys. y = x) then [the_push s ent x] else []) \<and>
      dirty (state (forEach ?ys ?f t)) x = (dirty t x \<and> \<not> (\<exists>y \<in> set ?ys. y = x))"
  proof (rule forEach_once [where I = "cleared s" and D = "\<lambda>t. dirty t x"])
    show "cleared s t" by fact
    show "raised (forEach ?ys ?f t) = None"
      using r by (simp add: update_uniforms_flat)
  next
    fix y u
    assume "y \<in> set ?ys" and "cleared s u" and "raised (?f y u) = None"
    with tr x show "cleared s (state (?f y u)) \<and>
        filter (is_push_of s x) (calls (?f y u)) =
          (if dirty u x \<and> y = x then [the_push s ent x] else []) \<and>
        dirty (state (?f y u)) x = (dirty u x \<and> y \<noteq> x)"
      by (intro update_uniform_entry) (simp_all add: mu)
  qed
  with x show ?thesis
    by (auto simp: update_uniforms_flat)
qed

lemma state_update_uniform_cases:
  "state (update_uniform materialSystem ent y t) = t \<or>
   state (update_uniform materialSystem ent y t) =
     clear_dirty t ent (uniform_name (uniform_objs t y))"
  by (simp add: update_uniform_def materialSystem_setUniform_def setUniform_def
      split: option.split)

lemma update_uniforms_foreign:
  assumes x: "x \<notin> set (material_uniforms s ent)" and t: "cleared s t"
  shows "filter (is_push_of s x) (calls (update_uniforms materialSystem ent mat t)) = [] \<and>
         dirty (state (update_uniforms materialSystem ent mat t)) x = dirty t x"
proof -
  let ?f = "update_uniform materialSystem ent"
  let ?I = "\<lambda>u. cleared s u \<and> dirty u x = dirty t x"
  have step: "?I (state (?f y u))" if u: "?I u" for y u
  proof -
    from u have st: "same_static s u" by (simp add: cleared_static)
    have "x \<notin> set (material_uniforms u ent)"
      using x by (simp add: material_uniforms_static [OF st])
    then have "dirty (state (?f y u)) x = dirty u x"
      using state_update_uniform_cases [of materialSystem ent y u]
      by (auto simp: dirty_clear_dirty)
    moreover have "cleared s (state (?f y u))"
      using u clearsD [OF clears_update_uniform] by (blast intro: cleared_trans)
    ultimately show ?thesis using u by simp
  qed
  have "?I (state (forEach (concat (uniforms mat)) ?f t))"
    by (rule forEach_invariant [where I = ?I]) (simp_all add: t step)
  moreover have "filter (is_push_of s x) (calls (update_uniforms materialSystem ent mat t)) = []"
  proof (rule filter_no_match)
    fix c
    assume "c \<in> set (calls (update_uniforms materialSystem ent mat t))"
    then obtain n d where "c = SetUniform ent n d True"
      by (blast dest: calls_update_uniforms)
    with x show "\<not> is_push_of s x c" by simp
  qed
  ultimately show ?thesis
    by (simp add: update_uniforms_flat)
qed

lemma update_uniforms_raised:
  assumes "material t ent = Some mat"
    and "raised (update_uniforms materialSystem ent mat t) \<noteq> None"
  shows "calls (update_uniforms materialSystem ent mat t) = [] \<and>
         state (update_uniforms materialSystem ent mat t) = t"
proof (cases materialSystem)
  case None
  then show ?thesis
    using update_uniforms_None [of "concat (uniforms mat)" t t ent]
    by (simp add: update_uniforms_flat)
next
  case (Some sys)
  from assms(1) have "set (concat (uniforms mat)) \<subseteq> set (material_uniforms t ent)"
    by (simp add: material_uniforms_def)
  then have "raised (forEach (concat (uniforms mat)) (update_uniform (Some sys) ent) t) = None"
    by (simp add: update_uniforms_Some)
  with assms(2) Some show ?thesis
    by (simp add: update_uniforms_flat)
qed

lemma entry_pushes_update_camera_uniforms:
  assumes "tracked s x"
  shows "filter (is_push_of s x)
           (calls (update_camera_uniforms materialSystem cam viewMatrix e ent t)) = []"
proof (rule filter_no_match)
  fix c
  assume "c \<in> set (calls (update_camera_uniforms materialSystem cam viewMatrix e ent t))"
  then obtain d where "c = SetUniform ent ''projectionMatrix'' d False \<or>
      c = SetUniform ent ''modelViewMatrix'' d False"
    by (blast dest: calls_update_camera_uniforms_names)
  with assms show "\<not> is_push_of s x c"
    by (auto simp: tracked_def)
qed

lemma entry_pushes_bindVertexInputs [simp]:
  "filter (is_push_of s x) (calls (bindVertexInputs geo t)) = []"
  by (rule filter_no_match) (auto dest: calls_bindVertexInputs)

lemma is_push_of_draw [simp]: "\<not> is_push_of s x (draw e mat geo)"
  by (simp add: draw_def split: option.split)

lemma entry_pushes_draw_mesh:
  assumes "tracked s x"
  shows "filter (is_push_of s x) (calls (draw_mesh materialSystem cam v e m mat geo t)) =
     (if raised (update_camera_uniforms materialSystem cam v e (mesh_material m) t) = None
      then filter (is_push_of s x) (calls (update_uniforms materialSystem (mesh_material m) mat t))
      else [])"
  by (simp add: calls_draw_mesh entry_pushes_update_camera_uniforms [OF assms])

lemma drawn_with_is_draw: "drawn_with s x c \<Longrightarrow> is_draw c"
  by (auto simp: drawn_with_def dest: is_draw_of_is_draw)

lemma drawn_with_draw:
  assumes "drawable s e m mat geo"
  shows "drawn_with s x (draw e mat geo) \<longleftrightarrow> x \<in> set (material_uniforms s (mesh_material m))"
  using assms by (auto simp: drawn_with_def uses_def drawable_def)

lemma drawn_with_draw_mesh:
  assumes "drawable s e m mat geo"
  shows "(\<exists>c \<in> set (calls (draw_mesh materialSystem cam v e m mat geo t)). drawn_with s x c) \<longleftrightarrow>
     raised (draw_mesh materialSystem cam v e m mat geo t) = None \<and>
     x \<in> set (material_uniforms s (mesh_material m))"
proof -
  let ?cs = "calls (draw_mesh materialSystem cam v e m mat geo t)"
  have "(\<exists>c \<in> set ?cs. drawn_with s x c) \<longleftrightarrow> (\<exists>c \<in> set (filter is_draw ?cs). drawn_with s x c)"
    by (auto dest: drawn_with_is_draw)
  then show ?thesis
    by (simp add: draws_draw_mesh drawn_with_draw [OF assms])
qed

lemma draw_mesh_entry:
  assumes tr: "tracked s x" and t: "cleared s t" and d: "drawable s e m mat geo"
  shows "once_if (dirty t x \<and>
             (\<exists>c \<in> set (calls (draw_mesh materialSystem cam v e m mat geo t)). drawn_with s x c))
           (\<lambda>p. \<exists>ent. x \<in> set (material_uniforms s ent) \<and> p = the_push s ent x)
           (filter (is_push_of s x) (calls (draw_mesh materialSystem cam v e m mat geo t))) \<and>
         dirty (state (draw_mesh materialSystem cam v e m mat geo t)) x =
           (dirty t x \<and>
            \<not> (\<exists>c \<in> set (calls (draw_mesh materialSystem cam v e m mat geo t)).
                 drawn_with s x c))"
proof -
  let ?ent = "mesh_material m"
  let ?dm = "draw_mesh materialSystem cam v e m mat geo t"
  let ?rc = "raised (update_camera_uniforms materialSystem cam v e ?ent t)"
  let ?loop = "update_uniforms materialSystem ?ent mat t"
  from t have st: "same_static s t" by (rule cleared_static)
  from d have mat: "material s ?ent = Some mat"
    by (simp add: drawable_def)
  then have mat': "material t ?ent = Some mat"
    by (simp add: same_staticD [OF st])
  note drawn = drawn_with_draw_mesh [OF d, of materialSystem cam v t x]
  note pushes = entry_pushes_draw_mesh [OF tr, of materialSystem cam v e m mat geo t]
  note final = state_draw_mesh [of materialSystem cam v e m mat geo t]
  show ?thesis
  proof (cases "x \<in> set (material_uniforms s ?ent)")
    case False
    from update_uniforms_foreign [OF False t, of materialSystem mat] False show ?thesis
      unfolding drawn pushes final by (simp add: once_if_def)
  next
    case True
    then have x: "x \<in> set (concat (uniforms mat))"
      using mat by (simp add: material_uniforms_def)
    show ?thesis
    proof (cases "raised ?dm = None")
      case fin: True
      then have rc: "?rc = None" and ru: "raised ?loop = None"
        by (simp_all add: raised_draw_mesh split: option.splits)
      from update_uniforms_own [OF tr t mat x ru] True fin rc show ?thesis
        unfolding drawn pushes final by (auto simp: once_if_def)
    next
      case failed: False
      show ?thesis
      proof (cases "?rc = None")
        case False
        with failed show ?thesis
          unfolding drawn pushes final by (auto simp: once_if_def)
      next
        case rc: True
        with failed have "raised ?loop \<noteq> None"
          by (simp add: raised_draw_mesh)
        from update_uniforms_raised [OF mat' this] failed rc show ?thesis
          unfolding drawn pushes final by (auto simp: once_if_def)
      qed
    qed
  qed
qed

lemma render_mesh_entry:
  assumes tr: "tracked s x" and t: "cleared s t"
  shows "cleared s (state (render_mesh materialSystem cam v e t)) \<and>
         once_if (dirty t x \<and>
             (\<exists>c \<in> set (calls (render_mesh materialSystem cam v e t)). drawn_with s x c))
           (\<lambda>p. \<exists>ent. x \<in> set (material_uniforms s ent) \<and> p = the_push s ent x)
           (filter (is_push_of s x) (calls (render_mesh materialSystem cam v e t))) \<and>
         dirty (state (render_mesh materialSystem cam v e t)) x =
           (dirty t x \<and>
            \<not> (\<exists>c \<in> set (calls (render_mesh materialSystem cam v e t)). drawn_with s x c))"
proof -
  have inv: "cleared s (state (render_mesh materialSystem cam v e t))"
    using t clearsD [OF clears_render_mesh] by (rule cleared_trans)
  show ?thesis
  proof (cases "\<exists>m mat geo. drawable t e m mat geo")
    case False
    then show ?thesis
      using render_mesh_undrawable [of t e materialSystem cam v] inv
      by (simp add: once_if_def)
  next
    case True
    then obtain m mat geo where dt: "drawable t e m mat geo"
      by blast
    with t have "drawable s e m mat geo"
      by (simp add: drawable_static [OF cleared_static])
    from draw_mesh_entry [OF tr t this] inv show ?thesis
      by (simp add: render_mesh_drawable [OF dt])
  qed
qed

lemma render_scene_entry:
  assumes tr: "tracked s x" and t: "cleared s t"
  shows "cleared s (state (render_scene materialSystem sc t)) \<and>
         once_if (dirty t x \<and>
             (\<exists>c \<in> set (calls (render_scene materialSystem sc t)). drawn_with s x c))
           (\<lambda>p. \<exists>ent. x \<in> set (material_uniforms s ent) \<and> p = the_push s ent x)
           (filter (is_push_of s x) (calls (render_scene materialSystem sc t))) \<and>
         dirty (state (render_scene materialSystem sc t)) x =
           (dirty t x \<and>
            \<not> (\<exists>c \<in> set (calls (render_scene materialSystem sc t)). drawn_with s x c))"
proof (cases "camera t (scene_camera (snd sc))")
  case None
  with t show ?thesis
    by (simp add: render_scene_def once_if_def)
next
  case (Some cam)
  let ?t = "extractFromVPMatrix (scene_camera (snd sc)) cam
    (perspective cam * viewTransform cam) t"
  let ?f = "render_mesh materialSystem cam (viewTransform cam)"
  have "cleared s (state (forEach (meshes (snd sc)) ?f ?t)) \<and>
      once_if (dirty ?t x \<and>
          (\<exists>c \<in> set (calls (forEach (meshes (snd sc)) ?f ?t)). drawn_with s x c))
        (\<lambda>p. \<exists>ent. x \<in> set (material_uniforms s ent) \<and> p = the_push s ent x)
        (filter (is_push_of s x) (calls (forEach (meshes (snd sc)) ?f ?t))) \<and>
      dirty (state (forEach (meshes (snd sc)) ?f ?t)) x =
        (dirty ?t x \<and>
         \<not> (\<exists>c \<in> set (calls (forEach (meshes (snd sc)) ?f ?t)). drawn_with s x c))"
  proof (rule forEach_once_drawn [where I = "cleared s" and D = "\<lambda>t. dirty t x"])
    show "cleared s ?t"
      using t cleared_extract [OF Some] by (rule cleared_trans)
  next
    fix e u
    assume "cleared s u"
    with tr show "cleared s (state (?f e u)) \<and>
        once_if (dirty u x \<and> (\<exists>c \<in> set (calls (?f e u)). drawn_with s x c))
          (\<lambda>p. \<exists>ent. x \<in> set (material_uniforms s ent) \<and> p = the_push s ent x)
          (filter (is_push_of s x) (calls (?f e u))) \<and>
        dirty (state (?f e u)) x =
          (dirty u x \<and> \<not> (\<exists>c \<in> set (calls (?f e u)). drawn_with s x c))"
      by (rule render_mesh_entry)
  qed
  with Some show ?thesis
    by (simp add: render_scene_def)
qed

lemma render_entry:
  assumes tr: "tracked s x"
  shows "once_if (dirty s x \<and> (\<exists>c \<in> set (calls (render systems s)). drawn_with s x c))
           (\<lambda>p. \<exists>ent. x \<in> set (material_uniforms s ent) \<and> p = the_push s ent x)
           (filter (is_push_of s x) (calls (render systems s))) \<and>
         dirty (state (render systems s)) x =
           (dirty s x \<and> \<not> (\<exists>c \<in> set (calls (render systems s)). drawn_with s x c))"
proof -
  let ?f = "render_scene (find_materialSystem systems)"
  have "cleared s (state (forEach (scene s) ?f s)) \<and>
      once_if (dirty s x \<and> (\<exists>c \<in> set (calls (forEach (scene s) ?f s)). drawn_with s x c))
        (\<lambda>p. \<exists>ent. x \<in> set (material_uniforms s ent) \<and> p = the_push s ent x)
        (filter (is_push_of s x) (calls (forEach (scene s) ?f s))) \<and>
      dirty (state (forEach (scene s) ?f s)) x =
        (dirty s x \<and> \<not> (\<exists>c \<in> set (calls (forEach (scene s) ?f s)). drawn_with s x c))"
  proof (rule forEach_once_drawn [where I = "cleared s" and D = "\<lambda>t. dirty t x"])
    show "cleared s s" by simp
  next
    fix sc u
    assume "cleared s u"
    with tr show "cleared s (state (?f sc u)) \<and>
        once_if (dirty u x \<and> (\<exists>c \<in> set (calls (?f sc u)). drawn_with s x c))
          (\<lambda>p. \<exists>ent. x \<in> set (material_uniforms s ent) \<and> p = the_push s ent x)
          (filter (is_push_of s x) (calls (?f sc u))) \<and>
        dirty (state (?f sc u)) x =
          (dirty u x \<and> \<not> (\<exists>c \<in> set (calls (?f sc u)). drawn_with s x c))"
      by (rule render_scene_entry)
  qed
  moreover have "\<not> drawn_with s x (Clear black True True True)"
    by (simp add: drawn_with_def)
  ultimately show ?thesis
    by (simp add: calls_render state_render)
qed

subsection \<open>The uniform entries of the variants of the frame\<close>

lemma demo_holders:
  "material_uniforms demo_store ent = (if ent = 10 then [0, 1, 2, 3] else [])"
  by (simp add: material_uniforms_def demo_store_def demo_material_def)

lemma late_holders:
  "material_uniforms late_store ent = (if ent = 10 then [0, 1, 2, 3] else [])"
  by (simp add: material_uniforms_def late_store_def demo_store_def demo_material_def)

lemma late_lookups:
  "mesh late_store 2 = Some \<lparr>mesh_material = 10, mesh_geometry = 20\<rparr>"
  "material late_store 10 = Some demo_material"
  "uniform_objs late_store = demo_uniforms"
  "frame_meshes late_store = [2, 8]"
  by (simp_all add: late_store_def demo_store_def frame_meshes_def)

lemma late_raised: "raised (render demo_systems late_store) = Some TypeError"
  by code_simp

lemma late_calls:
  "calls (render demo_systems late_store) =
     [Clear black True True True,
      SetUniform 10 ''projectionMatrix'' 7 False,
      SetUniform 10 ''modelViewMatrix'' 15 False,
      SetUniform 10 ''color'' 9 True,
      SetRenderBindGroups [200],
      BindVertexInputs \<lparr>indexBuffer = Some 101, indexOffset = 0, vertexStartSlot = 0,
        vertexBuffers = [100], vertexOffsets = [0]\<rparr>,
      DrawElementsType ''render-2-elements''
        (descriptor demo_material demo_indexed (Some ''uint32'')) 0 6 1]"
  by code_simp

lemma twin_lookups:
  "cullable twin_store 3 = Some \<lparr>visible = True\<rparr>"
  "mesh twin_store 3 = Some \<lparr>mesh_material = 10, mesh_geometry = 21\<rparr>"
  "material twin_store 10 = Some twin_material"
  "geometry twin_store 21 = Some demo_triangle"
  "uniforms twin_material = [[2, 4, 5]]"
  "\<not> material_dirty twin_material"
  "uniform_objs twin_store 2 =
     \<lparr>uniform_name = ''color'', uniform_dirty = True, uniform_data = 9\<rparr>"
  "uniform_objs twin_store 4 =
     \<lparr>uniform_name = ''color'', uniform_dirty = True, uniform_data = 8\<rparr>"
  "uniform_objs twin_store 5 =
     \<lparr>uniform_name = ''color'', uniform_dirty = False, uniform_data = 8\<rparr>"
  by (simp_all add: twin_store_def demo_store_def twin_material_def demo_material_def
      twin_uniforms_def demo_uniforms_def)

lemma twin_raised: "raised (render demo_systems twin_store) = None"
  by code_simp

lemma twin_calls:
  "calls (render demo_systems twin_store) =
     [Clear black True True True,
      SetUniform 10 ''color'' 9 True,
      SetRenderBindGroups [200],
      DrawArraysType ''render-3-arrays'' (descriptor twin_material demo_triangle None) 0 3 4]"
  by code_simp

section \<open>The claims\<close>

text \<open>
  C10. In every invocation of \<^verbatim>\<open>render\<close> the engine receives exactly one clear, with
  colour, depth and stencil all cleared, and it is the first call of the frame: every draw
  call, bind-group binding, vertex-input binding and uniform push comes after it. This holds
  also for a frame that ends with an exception.
\<close>

theorem C10_one_clear_first:
  "\<exists>rest. calls (render systems s) = Clear black True True True # rest \<and>
     filter is_clear rest = [] \<and>
     black = \<lparr>color_r = 0, color_g = 0, color_b = 0, color_a = 1\<rparr>"
proof -
  have "\<forall>c \<in> set (calls (forEach (scene s) (render_scene (find_materialSystem systems)) s)).
      \<not> is_clear c"
    by (rule frame_calls_all) (rule no_clear_render_mesh)
  then show ?thesis
    by (simp add: calls_render filter_empty_conv black_def)
qed

theorem C10_witness:
  "hd (calls (render demo_systems demo_store)) = Clear black True True True \<and>
   filter is_clear (tl (calls (render demo_systems demo_store))) = []"
  using C10_one_clear_first [of demo_systems demo_store] by auto

text \<open>
  C4. A mesh entity that has no Cullable component, or whose Cullable component is not
  visible, gets no draw call in the frame: no call of the frame carries the label of that
  mesh. The callback of the mesh returns at once, with no call at all and no exception.
\<close>

theorem C4_culled_not_drawn:
  assumes "cullable s e = None \<or> (\<exists>c. cullable s e = Some c \<and> \<not> visible c)"
  shows "filter (is_draw_of e) (calls (render systems s)) = [] \<and>
         render_mesh materialSystem cam viewMatrix e s = ok s"
proof -
  from assms have nv: "\<not> visible_mesh s e"
    by (auto simp: visible_mesh_def)
  then have "\<And>m mat geo. \<not> drawable s e m mat geo"
    by (simp add: drawable_def)
  then have "filter (is_draw_of e) (calls (render systems s)) = []"
    by (rule no_draws_of_undrawable)
  with nv show ?thesis by (simp add: render_mesh_def)
qed

theorem C4_witness:
  "cullable demo_store 5 = None \<and>
   filter (is_draw_of 5) (calls (render demo_systems demo_store)) = [] \<and>
   render_mesh None demo_camera 5 5 demo_store = ok demo_store \<and>
   (\<exists>c. cullable demo_store 4 = Some c \<and> \<not> visible c) \<and>
   filter (is_draw_of 4) (calls (render demo_systems demo_store)) = []"
  using C4_culled_not_drawn [of demo_store 5 demo_systems None demo_camera 5]
    C4_culled_not_drawn [of demo_store 4 demo_systems]
  by (simp add: demo_lookups)

text \<open>
  C3. A mesh whose material resolves and is dirty, or whose geometry resolves and is dirty,
  gets no draw call in the frame, and the callback of the mesh issues no call at all: no
  \<^verbatim>\<open>setUniform\<close>, no \<^verbatim>\<open>setRenderBindGroups\<close>, no \<^verbatim>\<open>bindVertexInputs\<close>, no draw.
\<close>

theorem C3_dirty_not_drawn:
  assumes "mesh s e = Some m"
    and "(\<exists>mat. material s (mesh_material m) = Some mat \<and> material_dirty mat) \<or>
         (\<exists>geo. geometry s (mesh_geometry m) = Some geo \<and> geometry_dirty geo)"
  shows "filter (is_draw_of e) (calls (render systems s)) = [] \<and>
         calls (render_mesh materialSystem cam viewMatrix e s) = []"
proof -
  from assms have nd: "\<And>m mat geo. \<not> drawable s e m mat geo"
    by (auto simp: drawable_def)
  from nd have "filter (is_draw_of e) (calls (render systems s)) = []"
    by (rule no_draws_of_undrawable)
  moreover from nd have "calls (render_mesh materialSystem cam viewMatrix e s) = []"
    by (rule no_calls_of_undrawable)
  ultimately show ?thesis by simp
qed

theorem C3_witness:
  "mesh demo_store 6 = Some \<lparr>mesh_material = 11, mesh_geometry = 20\<rparr> \<and>
   (\<exists>mat. material demo_store 11 = Some mat \<and> material_dirty mat) \<and>
   filter (is_draw_of 6) (calls (render demo_systems demo_store)) = [] \<and>
   calls (render_mesh (find_materialSystem demo_systems) demo_camera 5 6 demo_store) = [] \<and>
   mesh demo_store 7 = Some \<lparr>mesh_material = 10, mesh_geometry = 22\<rparr> \<and>
   (\<exists>geo. geometry demo_store 22 = Some geo \<and> geometry_dirty geo) \<and>
   filter (is_draw_of 7) (calls (render demo_systems demo_store)) = [] \<and>
   calls (render_mesh (find_materialSystem demo_systems) demo_camera 5 7 demo_store) = []"
  using C3_dirty_not_drawn [of demo_store 6 "\<lparr>mesh_material = 11, mesh_geometry = 20\<rparr>"
      demo_systems "find_materialSystem demo_systems" demo_camera 5]
    C3_dirty_not_drawn [of demo_store 7 "\<lparr>mesh_material = 10, mesh_geometry = 22\<rparr>"
      demo_systems "find_materialSystem demo_systems" demo_camera 5]
  by (simp add: demo_lookups)

text \<open>
  C5 says that a mesh that passes the two checks gets exactly one draw call. The callback
  runs once for each occurrence of the mesh in the mesh list of a scene, and not at all after
  an exception: mesh 3, listed twice, is drawn twice; mesh 2, listed after the mesh 8 whose
  material reference resolves to nothing, passes both checks and is not drawn, the frame
  ending with the TypeError of mesh 8.
\<close>

theorem C5_counterexample:
  "cullable twice_store 3 = Some \<lparr>visible = True\<rparr> \<and>
   mesh twice_store 3 = Some \<lparr>mesh_material = 10, mesh_geometry = 21\<rparr> \<and>
   material twice_store 10 = Some demo_material \<and> \<not> material_dirty demo_material \<and>
   geometry twice_store 21 = Some demo_triangle \<and> \<not> geometry_dirty demo_triangle \<and>
   indices demo_triangle = None \<and>
   frame_meshes twice_store = [3, 3] \<and>
   calls (render demo_systems twice_store) =
     [Clear black True True True,
      SetUniform 10 ''color'' 9 True,
      SetRenderBindGroups [200],
      DrawArraysType ''render-3-arrays'' (descriptor demo_material demo_triangle None) 0 3 4,
      SetRenderBindGroups [200],
      DrawArraysType ''render-3-arrays'' (descriptor demo_material demo_triangle None) 0 3 4] \<and>
   cullable dangling_store 2 = Some \<lparr>visible = True\<rparr> \<and>
   mesh dangling_store 2 = Some \<lparr>mesh_material = 10, mesh_geometry = 20\<rparr> \<and>
   material dangling_store 10 = Some demo_material \<and>
   geometry dangling_store 20 = Some demo_indexed \<and> \<not> geometry_dirty demo_indexed \<and>
   indices demo_indexed = Some [0, 1, 2, 2, 1, 3] \<and>
   frame_meshes dangling_store = [8, 2] \<and>
   raised (render demo_systems dangling_store) = Some TypeError \<and>
   calls (render demo_systems dangling_store) = [Clear black True True True]"
  by (simp add: twice_lookups twice_calls dangling_mesh_2 dangling_lookups dangling_raised
      dangling_calls demo_components)

text \<open>
  C5, as amended. Let a mesh pass the visibility check and the readiness check. If its
  geometry has a non-empty index list of length N, every draw call of the frame that carries
  the label of the mesh is the indexed draw with first index 0 and index count N; if the
  geometry has no index list or an empty one, every such call is the non-indexed draw with
  first vertex 0 and vertex count 3. There are at most as many such calls as the mesh has
  occurrences in the mesh lists of the scenes, and exactly as many in a frame that
  \<^verbatim>\<open>render\<close> completes: exactly one for a mesh that is listed once.
\<close>

theorem C5_draw_selection:
  assumes "cullable s e = Some c" and "visible c"
    and "mesh s e = Some m"
    and "material s (mesh_material m) = Some mat" and "\<not> material_dirty mat"
    and "geometry s (mesh_geometry m) = Some geo" and "\<not> geometry_dirty geo"
  shows "(\<forall>ixs. indices geo = Some ixs \<and> ixs \<noteq> [] \<longrightarrow>
            filter (is_draw_of e) (calls (render systems s)) =
              replicate (length (filter (is_draw_of e) (calls (render systems s))))
                (DrawElementsType (elements_label e) (descriptor mat geo (Some ''uint32''))
                   0 (length ixs) (instanceCount geo))) \<and>
         (indices geo = None \<or> indices geo = Some [] \<longrightarrow>
            filter (is_draw_of e) (calls (render systems s)) =
              replicate (length (filter (is_draw_of e) (calls (render systems s))))
                (DrawArraysType (arrays_label e) (descriptor mat geo None)
                   0 3 (instanceCount geo))) \<and>
         length (filter (is_draw_of e) (calls (render systems s))) \<le>
           count_list (frame_meshes s) e \<and>
         (raised (render systems s) = None \<longrightarrow>
            length (filter (is_draw_of e) (calls (render systems s))) =
              count_list (frame_meshes s) e)"
proof -
  from assms have d: "drawable s e m mat geo"
    by (simp add: drawable_def visible_mesh_def)
  have same: "filter (is_draw_of e) (calls (render systems s)) =
      replicate (length (filter (is_draw_of e) (calls (render systems s)))) (draw e mat geo)"
    using d by (rule frame_draws_same)
  have full: "length (filter (is_draw_of e) (calls (render systems s))) =
      count_list (frame_meshes s) e" if "raised (render systems s) = None"
    using frame_draw_count [OF that d] by simp
  have elements: "draw e mat geo =
      DrawElementsType (elements_label e) (descriptor mat geo (Some ''uint32''))
        0 (length ixs) (instanceCount geo)" if "indices geo = Some ixs \<and> ixs \<noteq> []" for ixs
    using that by (simp add: draw_def)
  have arrays: "draw e mat geo =
      DrawArraysType (arrays_label e) (descriptor mat geo None) 0 3 (instanceCount geo)"
    if "indices geo = None \<or> indices geo = Some []"
    using that by (auto simp: draw_def)
  show ?thesis
  proof (intro conjI allI impI)
    fix ixs
    assume a: "indices geo = Some ixs \<and> ixs \<noteq> []"
    show "filter (is_draw_of e) (calls (render systems s)) =
        replicate (length (filter (is_draw_of e) (calls (render systems s))))
          (DrawElementsType (elements_label e) (descriptor mat geo (Some ''uint32''))
             0 (length ixs) (instanceCount geo))"
      unfolding elements [OF a, symmetric] by (rule same)
  next
    assume a: "indices geo = None \<or> indices geo = Some []"
    show "filter (is_draw_of e) (calls (render systems s)) =
        replicate (length (filter (is_draw_of e) (calls (render systems s))))
          (DrawArraysType (arrays_label e) (descriptor mat geo None) 0 3 (instanceCount geo))"
      unfolding arrays [OF a, symmetric] by (rule same)
  next
    show "length (filter (is_draw_of e) (calls (render systems s))) \<le>
        count_list (frame_meshes s) e"
      by (rule frame_draw_le)
  next
    assume "raised (render systems s) = None"
    then show "length (filter (is_draw_of e) (calls (render systems s))) =
        count_list (frame_meshes s) e"
      by (rule full)
  qed
qed

theorem C5_witness:
  "cullable demo_store 2 = Some \<lparr>visible = True\<rparr> \<and>
   mesh demo_store 2 = Some \<lparr>mesh_material = 10, mesh_geometry = 20\<rparr> \<and>
   indices demo_indexed = Some [0, 1, 2, 2, 1, 3] \<and>
   raised (render demo_systems demo_store) = None \<and>
   count_list (frame_meshes demo_store) 2 = 1 \<and>
   filter (is_draw_of 2) (calls (render demo_systems demo_store)) =
     [DrawElementsType ''render-2-elements''
        (descriptor demo_material demo_indexed (Some ''uint32'')) 0 6 1] \<and>
   cullable demo_store 3 = Some \<lparr>visible = True\<rparr> \<and>
   mesh demo_store 3 = Some \<lparr>mesh_material = 10, mesh_geometry = 21\<rparr> \<and>
   indices demo_triangle = None \<and>
   count_list (frame_meshes demo_store) 3 = 1 \<and>
   filter (is_draw_of 3) (calls (render demo_systems demo_store)) =
     [DrawArraysType ''render-3-arrays'' (descriptor demo_material demo_triangle None) 0 3 4]"
proof -
  let ?cs = "calls (render demo_systems demo_store)"
  note mesh2 = C5_draw_selection [of demo_store 2 "\<lparr>visible = True\<rparr>"
      "\<lparr>mesh_material = 10, mesh_geometry = 20\<rparr>" demo_material demo_indexed demo_systems]
  note mesh3 = C5_draw_selection [of demo_store 3 "\<lparr>visible = True\<rparr>"
      "\<lparr>mesh_material = 10, mesh_geometry = 21\<rparr>" demo_material demo_triangle demo_systems]
  from mesh2 have full2: "length (filter (is_draw_of 2) ?cs) = 1"
    by (simp add: demo_raised demo_lookups demo_components)
  from mesh3 have full3: "length (filter (is_draw_of 3) ?cs) = 1"
    by (simp add: demo_raised demo_lookups demo_components)
  from full2 mesh2 have "filter (is_draw_of 2) ?cs =
      [DrawElementsType ''render-2-elements''
         (descriptor demo_material demo_indexed (Some ''uint32'')) 0 6 1]"
    by (simp add: demo_lookups demo_components demo_labels)
  moreover from full3 mesh3 have "filter (is_draw_of 3) ?cs =
      [DrawArraysType ''render-3-arrays'' (descriptor demo_material demo_triangle None) 0 3 4]"
    by (simp add: demo_lookups demo_components demo_labels)
  ultimately show ?thesis
    by (simp add: demo_raised demo_lookups demo_components)
qed

text \<open>
  C6. Every draw call of a frame, indexed or not, is the draw call of a mesh of the frame,
  and its instance count is the \<^verbatim>\<open>maxInstancedCount\<close> of the geometry of that mesh when
  that is set to a k greater than 0, and 1 when it is unset or 0.
\<close>

theorem C6_instance_count:
  assumes "c \<in> set (calls (render systems s))" and "is_draw c"
  shows "\<exists>e m geo. e \<in> set (frame_meshes s) \<and> is_draw_of e c \<and> mesh s e = Some m \<and>
           geometry s (mesh_geometry m) = Some geo \<and>
           (case maxInstancedCount geo of
              None \<Rightarrow> instances_of c = Some 1
            | Some k \<Rightarrow> (k = 0 \<longrightarrow> instances_of c = Some 1) \<and>
                        (0 < k \<longrightarrow> instances_of c = Some k))"
proof -
  from assms obtain e m mat geo where e: "e \<in> set (frame_meshes s)"
    and d: "drawable s e m mat geo" and c: "c = draw e mat geo"
    by (blast dest: frame_draws)
  have "case maxInstancedCount geo of
      None \<Rightarrow> instances_of c = Some 1
    | Some k \<Rightarrow> (k = 0 \<longrightarrow> instances_of c = Some 1) \<and> (0 < k \<longrightarrow> instances_of c = Some k)"
    by (simp add: c instanceCount_def split: option.split)
  with e d c show ?thesis
    by (auto simp: drawable_def)
qed

theorem C6_witness:
  "demo_arrays_draw \<in> set (calls (render demo_systems demo_store)) \<and>
   is_draw demo_arrays_draw \<and>
   (\<exists>e m geo. e \<in> set (frame_meshes demo_store) \<and> is_draw_of e demo_arrays_draw \<and>
      mesh demo_store e = Some m \<and> geometry demo_store (mesh_geometry m) = Some geo \<and>
      (case maxInstancedCount geo of
         None \<Rightarrow> instances_of demo_arrays_draw = Some 1
       | Some k \<Rightarrow> (k = 0 \<longrightarrow> instances_of demo_arrays_draw = Some 1) \<and>
                   (0 < k \<longrightarrow> instances_of demo_arrays_draw = Some k)))"
proof -
  have "demo_arrays_draw \<in> set (calls (render demo_systems demo_store))"
    by (simp add: demo_calls demo_arrays_draw_def)
  moreover have "is_draw demo_arrays_draw"
    by (simp add: demo_arrays_draw_def)
  ultimately show ?thesis
    using C6_instance_count [of demo_arrays_draw demo_systems demo_store] by blast
qed

text \<open>
  C1 says that a visible mesh with a dangling material or geometry reference is skipped
  silently. The non-null assertions of lines 69 to 71 do nothing at run time: in the frame
  below, mesh 8 is visible and its material reference resolves to nothing, \<^verbatim>\<open>render\<close>
  raises a TypeError at \<^verbatim>\<open>material.dirty\<close>, and mesh 2, next in the list, is never reached.
\<close>

theorem C1_counterexample:
  "cullable dangling_store 8 = Some \<lparr>visible = True\<rparr> \<and>
   mesh dangling_store 8 = Some \<lparr>mesh_material = 99, mesh_geometry = 20\<rparr> \<and>
   material dangling_store 99 = None \<and>
   raised (render demo_systems dangling_store) = Some TypeError \<and>
   calls (render demo_systems dangling_store) = [Clear black True True True]"
  by (simp add: dangling_lookups dangling_raised dangling_calls)

text \<open>
  C1, as amended. For a mesh that passes the visibility check and whose Mesh component
  resolves: when the material reference resolves to a dirty material, the callback skips the
  mesh silently, whether or not the geometry reference resolves; when the material reference
  does not resolve, or the material is not dirty and the geometry reference does not resolve,
  the mesh is not skipped: the callback raises a TypeError without issuing a call, no draw
  call of the frame is for that mesh, and \<^verbatim>\<open>render\<close> raises when the mesh is in a mesh list
  of the frame.
\<close>

theorem C1_dangling_reference:
  assumes "cullable s e = Some c" and "visible c" and "mesh s e = Some m"
  shows "((\<exists>mat. material s (mesh_material m) = Some mat \<and> material_dirty mat) \<longrightarrow>
            render_mesh materialSystem cam viewMatrix e s = ok s) \<and>
         (material s (mesh_material m) = None \<or>
          (\<exists>mat. material s (mesh_material m) = Some mat \<and> \<not> material_dirty mat \<and>
             geometry s (mesh_geometry m) = None) \<longrightarrow>
            render_mesh materialSystem cam viewMatrix e s = throw TypeError s \<and>
            filter (is_draw_of e) (calls (render systems s)) = [] \<and>
            (e \<in> set (frame_meshes s) \<longrightarrow> raised (render systems s) \<noteq> None))"
proof (intro conjI impI)
  assume "\<exists>mat. material s (mesh_material m) = Some mat \<and> material_dirty mat"
  with assms show "render_mesh materialSystem cam viewMatrix e s = ok s"
    by (auto simp: render_mesh_def render_ready_def visible_mesh_def)
next
  assume d: "material s (mesh_material m) = None \<or>
    (\<exists>mat. material s (mesh_material m) = Some mat \<and> \<not> material_dirty mat \<and>
       geometry s (mesh_geometry m) = None)"
  from assms have v: "visible_mesh s e" by (simp add: visible_mesh_def)
  from v assms(3) d show "render_mesh materialSystem cam viewMatrix e s = throw TypeError s"
    by (rule render_mesh_dangling)
  from assms(3) d have "\<And>m mat geo. \<not> drawable s e m mat geo"
    by (auto simp: drawable_def)
  then show "filter (is_draw_of e) (calls (render systems s)) = []"
    by (rule no_draws_of_undrawable)
  show "raised (render systems s) \<noteq> None" if e: "e \<in> set (frame_meshes s)"
  proof
    assume "raised (render systems s) = None"
    with e obtain cam' v' s' where s': "cleared s s'"
      and r: "raised (render_mesh (find_materialSystem systems) cam' v' e s') = None"
      by (blast dest: frame_reach)
    from s' have st: "same_static s s'" by (rule cleared_static)
    have "render_mesh (find_materialSystem systems) cam' v' e s' = throw TypeError s'"
    proof (rule render_mesh_dangling)
      show "visible_mesh s' e" using v by (simp add: visible_mesh_static [OF st])
      show "mesh s' e = Some m" using assms(3) by (simp add: same_staticD [OF st])
      show "material s' (mesh_material m) = None \<or>
        (\<exists>mat. material s' (mesh_material m) = Some mat \<and> \<not> material_dirty mat \<and>
           geometry s' (mesh_geometry m) = None)"
        using d by (simp add: same_staticD [OF st])
    qed
    with r show False by simp
  qed
qed

theorem C1_witness:
  "cullable dangling_store 8 = Some \<lparr>visible = True\<rparr> \<and>
   mesh dangling_store 8 = Some \<lparr>mesh_material = 99, mesh_geometry = 20\<rparr> \<and>
   material dangling_store 99 = None \<and> 8 \<in> set (frame_meshes dangling_store) \<and>
   render_mesh (find_materialSystem demo_systems) demo_camera 5 8 dangling_store =
     throw TypeError dangling_store \<and>
   filter (is_draw_of 8) (calls (render demo_systems dangling_store)) = [] \<and>
   raised (render demo_systems dangling_store) \<noteq> None \<and>
   cullable demo_store 6 = Some \<lparr>visible = True\<rparr> \<and>
   mesh demo_store 6 = Some \<lparr>mesh_material = 11, mesh_geometry = 20\<rparr> \<and>
   (\<exists>mat. material demo_store 11 = Some mat \<and> material_dirty mat) \<and>
   render_mesh (find_materialSystem demo_systems) demo_camera 5 6 demo_store = ok demo_store"
  using C1_dangling_reference [of dangling_store 8 "\<lparr>visible = True\<rparr>"
      "\<lparr>mesh_material = 99, mesh_geometry = 20\<rparr>"
      "find_materialSystem demo_systems" demo_camera 5 demo_systems]
    C1_dangling_reference [of demo_store 6 "\<lparr>visible = True\<rparr>"
      "\<lparr>mesh_material = 11, mesh_geometry = 20\<rparr>"
      "find_materialSystem demo_systems" demo_camera 5 demo_systems]
  by (simp add: dangling_lookups demo_lookups)

text \<open>
  C2 says that every mesh that passes the two checks gets each of the two camera uniforms
  pushed exactly once, whatever the dirty flags are. Lines 78 to 108 push them only when the
  mesh has a Transform component: mesh 3 below passes both checks, has none, and the frame
  holds no push of \<^verbatim>\<open>projectionMatrix\<close> or \<^verbatim>\<open>modelViewMatrix\<close>. And the loop of lines 111
  to 124 pushes every dirty binding entry, whatever its name: mesh 2 below has a Transform
  component and a material with a dirty entry named \<^verbatim>\<open>projectionMatrix\<close>, and the frame
  pushes \<^verbatim>\<open>projectionMatrix\<close> twice for it, without the custom-value marker and with it.
\<close>

theorem C2_counterexample:
  "cullable untransformed_store 3 = Some \<lparr>visible = True\<rparr> \<and>
   mesh untransformed_store 3 = Some \<lparr>mesh_material = 10, mesh_geometry = 21\<rparr> \<and>
   material untransformed_store 10 = Some demo_material \<and> \<not> material_dirty demo_material \<and>
   geometry untransformed_store 21 = Some demo_triangle \<and> \<not> geometry_dirty demo_triangle \<and>
   transform untransformed_store 3 = None \<and>
   calls (render demo_systems untransformed_store) =
     [Clear black True True True,
      SetUniform 10 ''color'' 9 True,
      SetRenderBindGroups [200],
      DrawArraysType ''render-3-arrays'' (descriptor demo_material demo_triangle None) 0 3 4] \<and>
   cullable stale_store 2 = Some \<lparr>visible = True\<rparr> \<and>
   mesh stale_store 2 = Some \<lparr>mesh_material = 10, mesh_geometry = 20\<rparr> \<and>
   material stale_store 10 = Some demo_material \<and>
   geometry stale_store 20 = Some demo_indexed \<and> \<not> geometry_dirty demo_indexed \<and>
   transform stale_store 2 = Some \<lparr>worldTransform = 3\<rparr> \<and>
   uniforms demo_material = [[0, 1], [2, 3]] \<and>
   uniform_objs stale_store 0 =
     \<lparr>uniform_name = ''projectionMatrix'', uniform_dirty = True, uniform_data = 0\<rparr> \<and>
   calls (render demo_systems stale_store) =
     [Clear black True True True,
      SetUniform 10 ''projectionMatrix'' 7 False,
      SetUniform 10 ''modelViewMatrix'' 15 False,
      SetUniform 10 ''projectionMatrix'' 0 True,
      SetUniform 10 ''color'' 9 True,
      SetRenderBindGroups [200],
      BindVertexInputs \<lparr>indexBuffer = Some 101, indexOffset = 0, vertexStartSlot = 0,
        vertexBuffers = [100], vertexOffsets = [0]\<rparr>,
      DrawElementsType ''render-2-elements''
        (descriptor demo_material demo_indexed (Some ''uint32'')) 0 6 1]"
  by (simp add: untransformed_lookups demo_components untransformed_calls stale_lookups
      stale_calls demo_material_def)

text \<open>
  C2, as amended. For a mesh that passes the visibility check and the readiness check, the
  callback that \<^verbatim>\<open>render\<close> runs for the mesh, when it completes, has made these pushes.
  Without the custom-value marker: \<^verbatim>\<open>projectionMatrix\<close> (the perspective matrix of the
  camera) and \<^verbatim>\<open>modelViewMatrix\<close> (view times world transform), once each and in this
  order, if the mesh has a Transform component, and none if it has not, whatever the dirty
  flags of the uniforms are. Under the name \<^verbatim>\<open>projectionMatrix\<close>, and likewise under the
  name \<^verbatim>\<open>modelViewMatrix\<close>: that push without the marker, if the mesh has a Transform
  component, followed by one push with the marker if a binding entry of that name of the
  material is dirty when the callback starts, with the data of the first such entry. So each
  of the two names is pushed exactly once for a mesh with a Transform component, and not at
  all for a mesh without, exactly when no binding entry of that name is dirty. The first half
  of the statement is about the callback in any store; the second half finds the calls of the
  callback, for each occurrence of the mesh in a scene of a completed frame, as a segment of
  the calls of the frame, the callback running in a store that differs from the initial one
  in cleaned flags and frustums only.
\<close>

theorem C2_camera_uniforms:
  assumes "cullable s e = Some c" and "visible c" and "mesh s e = Some m"
    and "material s (mesh_material m) = Some mat" and "\<not> material_dirty mat"
    and "geometry s (mesh_geometry m) = Some geo" and "\<not> geometry_dirty geo"
  shows "(raised (render_mesh materialSystem cam viewMatrix e s) = None \<longrightarrow>
            filter camera_push (calls (render_mesh materialSystem cam viewMatrix e s)) =
              (case transform s e of
                 None \<Rightarrow> []
               | Some tr \<Rightarrow>
                   [SetUniform (mesh_material m) ''projectionMatrix'' (perspective cam) False,
                    SetUniform (mesh_material m) ''modelViewMatrix''
                      (viewMatrix * worldTransform tr) False]) \<and>
            filter (is_push (mesh_material m) ''projectionMatrix'')
                (calls (render_mesh materialSystem cam viewMatrix e s)) =
              (case transform s e of
                 None \<Rightarrow> []
               | Some tr \<Rightarrow>
                   [SetUniform (mesh_material m) ''projectionMatrix'' (perspective cam) False]) @
              marked_push s (mesh_material m) mat ''projectionMatrix'' \<and>
            filter (is_push (mesh_material m) ''modelViewMatrix'')
                (calls (render_mesh materialSystem cam viewMatrix e s)) =
              (case transform s e of
                 None \<Rightarrow> []
               | Some tr \<Rightarrow>
                   [SetUniform (mesh_material m) ''modelViewMatrix''
                      (viewMatrix * worldTransform tr) False]) @
              marked_push s (mesh_material m) mat ''modelViewMatrix'') \<and>
         (raised (render systems s) = None \<and> sc \<in> set (scene s) \<and>
          e \<in> set (meshes (snd sc)) \<and> camera s (scene_camera (snd sc)) = Some scam \<longrightarrow>
            (\<exists>t pre post. cleared s t \<and>
               calls (render systems s) =
                 pre @ calls (render_mesh (find_materialSystem systems) scam
                          (viewTransform scam) e t) @ post \<and>
               filter camera_push (calls (render_mesh (find_materialSystem systems) scam
                   (viewTransform scam) e t)) =
                 (case transform s e of
                    None \<Rightarrow> []
                  | Some tr \<Rightarrow>
                      [SetUniform (mesh_material m) ''projectionMatrix'' (perspective scam)
                         False,
                       SetUniform (mesh_material m) ''modelViewMatrix''
                         (viewTransform scam * worldTransform tr) False]) \<and>
               filter (is_push (mesh_material m) ''projectionMatrix'')
                   (calls (render_mesh (find_materialSystem systems) scam
                      (viewTransform scam) e t)) =
                 (case transform s e of
                    None \<Rightarrow> []
                  | Some tr \<Rightarrow>
                      [SetUniform (mesh_material m) ''projectionMatrix'' (perspective scam)
                         False]) @
                 marked_push t (mesh_material m) mat ''projectionMatrix'' \<and>
               filter (is_push (mesh_material m) ''modelViewMatrix'')
                   (calls (render_mesh (find_materialSystem systems) scam
                      (viewTransform scam) e t)) =
                 (case transform s e of
                    None \<Rightarrow> []
                  | Some tr \<Rightarrow>
                      [SetUniform (mesh_material m) ''modelViewMatrix''
                         (viewTransform scam * worldTransform tr) False]) @
                 marked_push t (mesh_material m) mat ''modelViewMatrix''))"
proof -
  from assms have d: "drawable s e m mat geo"
    by (simp add: drawable_def visible_mesh_def)
  have step: "filter camera_push (calls (render_mesh ms cm v e t)) =
      (case transform s e of
         None \<Rightarrow> []
       | Some tr \<Rightarrow>
           [SetUniform (mesh_material m) ''projectionMatrix'' (perspective cm) False,
            SetUniform (mesh_material m) ''modelViewMatrix'' (v * worldTransform tr) False]) \<and>
      filter (is_push (mesh_material m) ''projectionMatrix'') (calls (render_mesh ms cm v e t)) =
        (case transform s e of
           None \<Rightarrow> []
         | Some tr \<Rightarrow> [SetUniform (mesh_material m) ''projectionMatrix'' (perspective cm) False]) @
        marked_push t (mesh_material m) mat ''projectionMatrix'' \<and>
      filter (is_push (mesh_material m) ''modelViewMatrix'') (calls (render_mesh ms cm v e t)) =
        (case transform s e of
           None \<Rightarrow> []
         | Some tr \<Rightarrow>
             [SetUniform (mesh_material m) ''modelViewMatrix'' (v * worldTransform tr) False]) @
        marked_push t (mesh_material m) mat ''modelViewMatrix''"
    if t: "cleared s t" and r: "raised (render_mesh ms cm v e t) = None" for ms cm v t
  proof -
    from t have st: "same_static s t" by (rule cleared_static)
    from d have dt: "drawable t e m mat geo"
      by (simp add: drawable_static [OF st])
    then have eq: "render_mesh ms cm v e t = draw_mesh ms cm v e m mat geo t"
      by (rule render_mesh_drawable)
    from dt have mat: "material t (mesh_material m) = Some mat"
      by (simp add: drawable_def)
    from r have rd: "raised (draw_mesh ms cm v e m mat geo t) = None"
      by (simp add: eq)
    from rd pushes_named_draw_mesh [OF mat rd] show ?thesis
      by (simp add: eq camera_pushes_draw_mesh same_staticD [OF st])
  qed
  show ?thesis
  proof (intro conjI impI)
    assume r: "raised (render_mesh materialSystem cam viewMatrix e s) = None"
    from step [OF _ r]
    show "filter camera_push (calls (render_mesh materialSystem cam viewMatrix e s)) =
        (case transform s e of
           None \<Rightarrow> []
         | Some tr \<Rightarrow>
             [SetUniform (mesh_material m) ''projectionMatrix'' (perspective cam) False,
              SetUniform (mesh_material m) ''modelViewMatrix''
                (viewMatrix * worldTransform tr) False])"
      and "filter (is_push (mesh_material m) ''projectionMatrix'')
          (calls (render_mesh materialSystem cam viewMatrix e s)) =
        (case transform s e of
           None \<Rightarrow> []
         | Some tr \<Rightarrow>
             [SetUniform (mesh_material m) ''projectionMatrix'' (perspective cam) False]) @
        marked_push s (mesh_material m) mat ''projectionMatrix''"
      and "filter (is_push (mesh_material m) ''modelViewMatrix'')
          (calls (render_mesh materialSystem cam viewMatrix e s)) =
        (case transform s e of
           None \<Rightarrow> []
         | Some tr \<Rightarrow>
             [SetUniform (mesh_material m) ''modelViewMatrix''
                (viewMatrix * worldTransform tr) False]) @
        marked_push s (mesh_material m) mat ''modelViewMatrix''"
      by simp_all
  next
    assume "raised (render systems s) = None \<and> sc \<in> set (scene s) \<and>
      e \<in> set (meshes (snd sc)) \<and> camera s (scene_camera (snd sc)) = Some scam"
    then obtain t pre post where t: "cleared s t"
      and r: "raised (render_mesh (find_materialSystem systems) scam
        (viewTransform scam) e t) = None"
      and c: "calls (render systems s) =
        pre @ calls (render_mesh (find_materialSystem systems) scam (viewTransform scam) e t) @
        post"
      using frame_segment [of systems s sc e scam] by blast
    from step [OF t r] t c
    show "\<exists>t pre post. cleared s t \<and>
        calls (render systems s) =
          pre @ calls (render_mesh (find_materialSystem systems) scam
                   (viewTransform scam) e t) @ post \<and>
        filter camera_push (calls (render_mesh (find_materialSystem systems) scam
            (viewTransform scam) e t)) =
          (case transform s e of
             None \<Rightarrow> []
           | Some tr \<Rightarrow>
               [SetUniform (mesh_material m) ''projectionMatrix'' (perspective scam) False,
                SetUniform (mesh_material m) ''modelViewMatrix''
                  (viewTransform scam * worldTransform tr) False]) \<and>
        filter (is_push (mesh_material m) ''projectionMatrix'')
            (calls (render_mesh (find_materialSystem systems) scam (viewTransform scam) e t)) =
          (case transform s e of
             None \<Rightarrow> []
           | Some tr \<Rightarrow>
               [SetUniform (mesh_material m) ''projectionMatrix'' (perspective scam) False]) @
          marked_push t (mesh_material m) mat ''projectionMatrix'' \<and>
        filter (is_push (mesh_material m) ''modelViewMatrix'')
            (calls (render_mesh (find_materialSystem systems) scam (viewTransform scam) e t)) =
          (case transform s e of
             None \<Rightarrow> []
           | Some tr \<Rightarrow>
               [SetUniform (mesh_material m) ''modelViewMatrix''
                  (viewTransform scam * worldTransform tr) False]) @
          marked_push t (mesh_material m) mat ''modelViewMatrix''"
      by blast
  qed
qed

theorem C2_witness:
  "cullable demo_store 2 = Some \<lparr>visible = True\<rparr> \<and>
   mesh demo_store 2 = Some \<lparr>mesh_material = 10, mesh_geometry = 20\<rparr> \<and>
   transform demo_store 2 = Some \<lparr>worldTransform = 3\<rparr> \<and>
   raised (render_mesh (find_materialSystem demo_systems) demo_camera 5 2 demo_store) = None \<and>
   filter camera_push
     (calls (render_mesh (find_materialSystem demo_systems) demo_camera 5 2 demo_store)) =
     [SetUniform 10 ''projectionMatrix'' 7 False, SetUniform 10 ''modelViewMatrix'' 15 False] \<and>
   filter (is_push 10 ''projectionMatrix'')
     (calls (render_mesh (find_materialSystem demo_systems) demo_camera 5 2 demo_store)) =
     [SetUniform 10 ''projectionMatrix'' 7 False] \<and>
   filter (is_push 10 ''modelViewMatrix'')
     (calls (render_mesh (find_materialSystem demo_systems) demo_camera 5 2 demo_store)) =
     [SetUniform 10 ''modelViewMatrix'' 15 False] \<and>
   raised (render demo_systems demo_store) = None \<and>
   (\<exists>t pre post. cleared demo_store t \<and>
      calls (render demo_systems demo_store) =
        pre @ calls (render_mesh (find_materialSystem demo_systems) demo_camera 5 2 t) @ post \<and>
      filter camera_push
        (calls (render_mesh (find_materialSystem demo_systems) demo_camera 5 2 t)) =
        [SetUniform 10 ''projectionMatrix'' 7 False, SetUniform 10 ''modelViewMatrix'' 15 False] \<and>
      filter (is_push 10 ''projectionMatrix'')
        (calls (render_mesh (find_materialSystem demo_systems) demo_camera 5 2 t)) =
        [SetUniform 10 ''projectionMatrix'' 7 False] \<and>
      filter (is_push 10 ''modelViewMatrix'')
        (calls (render_mesh (find_materialSystem demo_systems) demo_camera 5 2 t)) =
        [SetUniform 10 ''modelViewMatrix'' 15 False]) \<and>
   cullable stale_store 2 = Some \<lparr>visible = True\<rparr> \<and>
   mesh stale_store 2 = Some \<lparr>mesh_material = 10, mesh_geometry = 20\<rparr> \<and>
   transform stale_store 2 = Some \<lparr>worldTransform = 3\<rparr> \<and>
   raised (render_mesh (find_materialSystem demo_systems) demo_camera 5 2 stale_store) = None \<and>
   filter (is_push 10 ''projectionMatrix'')
     (calls (render_mesh (find_materialSystem demo_systems) demo_camera 5 2 stale_store)) =
     [SetUniform 10 ''projectionMatrix'' 7 False, SetUniform 10 ''projectionMatrix'' 0 True]"
proof -
  let ?f = "render_mesh (find_materialSystem demo_systems) demo_camera 5 2"
  note demo = C2_camera_uniforms [of demo_store 2 "\<lparr>visible = True\<rparr>"
      "\<lparr>mesh_material = 10, mesh_geometry = 20\<rparr>" demo_material demo_indexed
      "find_materialSystem demo_systems" demo_camera 5 demo_systems
      "(0, \<lparr>scene_camera = 1, meshes = [2, 3, 4, 5, 6, 7]\<rparr>)" demo_camera]
  note stale = C2_camera_uniforms [of stale_store 2 "\<lparr>visible = True\<rparr>"
      "\<lparr>mesh_material = 10, mesh_geometry = 20\<rparr>" demo_material demo_indexed
      "find_materialSystem demo_systems" demo_camera 5]
  from demo have callback:
    "filter camera_push (calls (?f demo_store)) =
       [SetUniform 10 ''projectionMatrix'' 7 False, SetUniform 10 ''modelViewMatrix'' 15 False] \<and>
     filter (is_push 10 ''projectionMatrix'') (calls (?f demo_store)) =
       [SetUniform 10 ''projectionMatrix'' 7 False] \<and>
     filter (is_push 10 ''modelViewMatrix'') (calls (?f demo_store)) =
       [SetUniform 10 ''modelViewMatrix'' 15 False]"
    by (simp add: demo_lookups demo_components demo_mesh_2 demo_camera_sel demo_marked)
  from demo have "\<exists>t pre post. cleared demo_store t \<and>
      calls (render demo_systems demo_store) = pre @ calls (?f t) @ post \<and>
      filter camera_push (calls (?f t)) =
        [SetUniform 10 ''projectionMatrix'' 7 False, SetUniform 10 ''modelViewMatrix'' 15 False] \<and>
      filter (is_push 10 ''projectionMatrix'') (calls (?f t)) =
        [SetUniform 10 ''projectionMatrix'' 7 False] @
        marked_push t 10 demo_material ''projectionMatrix'' \<and>
      filter (is_push 10 ''modelViewMatrix'') (calls (?f t)) =
        [SetUniform 10 ''modelViewMatrix'' 15 False] @
        marked_push t 10 demo_material ''modelViewMatrix''"
    by (simp add: demo_lookups demo_components demo_camera_sel demo_raised demo_scene)
  then obtain t pre post where t: "cleared demo_store t"
    and c: "calls (render demo_systems demo_store) = pre @ calls (?f t) @ post"
    and p0: "filter camera_push (calls (?f t)) =
        [SetUniform 10 ''projectionMatrix'' 7 False, SetUniform 10 ''modelViewMatrix'' 15 False]"
    and p1: "filter (is_push 10 ''projectionMatrix'') (calls (?f t)) =
        [SetUniform 10 ''projectionMatrix'' 7 False] @
        marked_push t 10 demo_material ''projectionMatrix''"
    and p2: "filter (is_push 10 ''modelViewMatrix'') (calls (?f t)) =
        [SetUniform 10 ''modelViewMatrix'' 15 False] @
        marked_push t 10 demo_material ''modelViewMatrix''"
    by blast
  from p1 p2 have "filter (is_push 10 ''projectionMatrix'') (calls (?f t)) =
        [SetUniform 10 ''projectionMatrix'' 7 False]"
    and "filter (is_push 10 ''modelViewMatrix'') (calls (?f t)) =
        [SetUniform 10 ''modelViewMatrix'' 15 False]"
    by (simp_all add: marked_push_cleared [OF t] demo_marked)
  with t c p0 have segment: "\<exists>t pre post. cleared demo_store t \<and>
      calls (render demo_systems demo_store) = pre @ calls (?f t) @ post \<and>
      filter camera_push (calls (?f t)) =
        [SetUniform 10 ''projectionMatrix'' 7 False, SetUniform 10 ''modelViewMatrix'' 15 False] \<and>
      filter (is_push 10 ''projectionMatrix'') (calls (?f t)) =
        [SetUniform 10 ''projectionMatrix'' 7 False] \<and>
      filter (is_push 10 ''modelViewMatrix'') (calls (?f t)) =
        [SetUniform 10 ''modelViewMatrix'' 15 False]"
    by blast
  from stale have "filter (is_push 10 ''projectionMatrix'') (calls (?f stale_store)) =
      [SetUniform 10 ''projectionMatrix'' 7 False, SetUniform 10 ''projectionMatrix'' 0 True]"
    by (simp add: stale_lookups demo_components stale_mesh_2 demo_camera_sel stale_marked)
  with callback segment show ?thesis
    by (simp add: demo_lookups demo_mesh_2 demo_raised stale_lookups stale_mesh_2)
qed

text \<open>
  C9 says that \<^verbatim>\<open>bindVertexInputs\<close> is called if and only if some vertex attribute has a
  buffer. The guard of line 129 is the length of the attribute list: the geometry below has
  one attribute, without buffer, and \<^verbatim>\<open>bindVertexInputs\<close> is called with no vertex buffer.
\<close>

theorem C9_counterexample:
  "geometry unbuffered_store 21 = Some unbuffered \<and>
   map buffer (attributes unbuffered) = [None] \<and>
   calls (render demo_systems unbuffered_store) =
     [Clear black True True True,
      SetUniform 10 ''color'' 9 True,
      SetRenderBindGroups [200],
      BindVertexInputs \<lparr>indexBuffer = None, indexOffset = 0, vertexStartSlot = 0,
        vertexBuffers = [], vertexOffsets = []\<rparr>,
      DrawArraysType ''render-3-arrays'' (descriptor demo_material unbuffered None) 0 3 4]"
  by (simp add: unbuffered_lookups unbuffered_calls)

text \<open>
  C9, as amended. For a drawn mesh, the callback, when it completes, has called
  \<^verbatim>\<open>bindVertexInputs\<close> if and only if the geometry has at least one vertex attribute,
  whether or not a buffer handle is set; the call is made once, and the bound vertex buffers
  are the buffers of the attributes with the unset handles filtered out, in consecutive slots
  from slot 0, each at offset 0, with the index buffer of the geometry (if present) and index
  offset 0. As for C2, the statement is about the callback in any store, and about its calls
  as a segment of the calls of a completed frame.
\<close>

theorem C9_vertex_inputs:
  assumes "cullable s e = Some c" and "visible c" and "mesh s e = Some m"
    and "material s (mesh_material m) = Some mat" and "\<not> material_dirty mat"
    and "geometry s (mesh_geometry m) = Some geo" and "\<not> geometry_dirty geo"
  shows "(raised (render_mesh materialSystem cam viewMatrix e s) = None \<longrightarrow>
            filter is_bindVertexInputs
              (calls (render_mesh materialSystem cam viewMatrix e s)) =
              (if attributes geo = [] then []
               else [BindVertexInputs
                 \<lparr>indexBuffer = indicesBuffer geo, indexOffset = 0, vertexStartSlot = 0,
                  vertexBuffers =
                    map the (filter (\<lambda>b. b \<noteq> None) (map buffer (attributes geo))),
                  vertexOffsets =
                    replicate (length (filter (\<lambda>b. b \<noteq> None)
                      (map buffer (attributes geo)))) 0\<rparr>])) \<and>
         (raised (render systems s) = None \<and> sc \<in> set (scene s) \<and>
          e \<in> set (meshes (snd sc)) \<and> camera s (scene_camera (snd sc)) = Some scam \<longrightarrow>
            (\<exists>t pre post. cleared s t \<and>
               calls (render systems s) =
                 pre @ calls (render_mesh (find_materialSystem systems) scam
                          (viewTransform scam) e t) @ post \<and>
               filter is_bindVertexInputs (calls (render_mesh (find_materialSystem systems) scam
                   (viewTransform scam) e t)) =
                 (if attributes geo = [] then []
                  else [BindVertexInputs
                    \<lparr>indexBuffer = indicesBuffer geo, indexOffset = 0, vertexStartSlot = 0,
                     vertexBuffers =
                       map the (filter (\<lambda>b. b \<noteq> None) (map buffer (attributes geo))),
                     vertexOffsets =
                       replicate (length (filter (\<lambda>b. b \<noteq> None)
                         (map buffer (attributes geo)))) 0\<rparr>])))"
proof -
  let ?binds = "if attributes geo = [] then []
    else [BindVertexInputs
      \<lparr>indexBuffer = indicesBuffer geo, indexOffset = 0, vertexStartSlot = 0,
       vertexBuffers = map the (filter (\<lambda>b. b \<noteq> None) (map buffer (attributes geo))),
       vertexOffsets =
         replicate (length (filter (\<lambda>b. b \<noteq> None) (map buffer (attributes geo)))) 0\<rparr>]"
  from assms have d: "drawable s e m mat geo"
    by (simp add: drawable_def visible_mesh_def)
  have step: "filter is_bindVertexInputs (calls (render_mesh ms cm v e t)) = ?binds"
    if t: "cleared s t" and r: "raised (render_mesh ms cm v e t) = None" for ms cm v t
  proof -
    from t have st: "same_static s t" by (rule cleared_static)
    from d have "drawable t e m mat geo"
      by (simp add: drawable_static [OF st])
    then have eq: "render_mesh ms cm v e t = draw_mesh ms cm v e m mat geo t"
      by (rule render_mesh_drawable)
    with r have "raised (draw_mesh ms cm v e m mat geo t) = None"
      by simp
    then have "filter is_bindVertexInputs (calls (render_mesh ms cm v e t)) =
        calls (bindVertexInputs geo t)"
      by (simp add: eq binds_draw_mesh)
    then show ?thesis
      by (simp add: bindVertexInputs_def attribute_buffers_eq map_replicate_const)
  qed
  show ?thesis
  proof (intro conjI impI)
    assume "raised (render_mesh materialSystem cam viewMatrix e s) = None"
    then show "filter is_bindVertexInputs
        (calls (render_mesh materialSystem cam viewMatrix e s)) = ?binds"
      by (intro step) simp_all
  next
    assume "raised (render systems s) = None \<and> sc \<in> set (scene s) \<and>
      e \<in> set (meshes (snd sc)) \<and> camera s (scene_camera (snd sc)) = Some scam"
    then obtain t pre post where t: "cleared s t"
      and r: "raised (render_mesh (find_materialSystem systems) scam
        (viewTransform scam) e t) = None"
      and c: "calls (render systems s) =
        pre @ calls (render_mesh (find_materialSystem systems) scam (viewTransform scam) e t) @
        post"
      using frame_segment [of systems s sc e scam] by blast
    from step [OF t r] t c
    show "\<exists>t pre post. cleared s t \<and>
        calls (render systems s) =
          pre @ calls (render_mesh (find_materialSystem systems) scam
                   (viewTransform scam) e t) @ post \<and>
        filter is_bindVertexInputs (calls (render_mesh (find_materialSystem systems) scam
            (viewTransform scam) e t)) = ?binds"
      by blast
  qed
qed

theorem C9_witness:
  "cullable demo_store 2 = Some \<lparr>visible = True\<rparr> \<and>
   mesh demo_store 2 = Some \<lparr>mesh_material = 10, mesh_geometry = 20\<rparr> \<and>
   map buffer (attributes demo_indexed) = [Some 100, None] \<and>
   raised (render_mesh (find_materialSystem demo_systems) demo_camera 5 2 demo_store) = None \<and>
   filter is_bindVertexInputs
     (calls (render_mesh (find_materialSystem demo_systems) demo_camera 5 2 demo_store)) =
     [BindVertexInputs \<lparr>indexBuffer = Some 101, indexOffset = 0, vertexStartSlot = 0,
        vertexBuffers = [100], vertexOffsets = [0]\<rparr>] \<and>
   raised (render demo_systems demo_store) = None \<and>
   (\<exists>t pre post. cleared demo_store t \<and>
      calls (render demo_systems demo_store) =
        pre @ calls (render_mesh (find_materialSystem demo_systems) demo_camera 5 2 t) @ post \<and>
      filter is_bindVertexInputs
        (calls (render_mesh (find_materialSystem demo_systems) demo_camera 5 2 t)) =
        [BindVertexInputs \<lparr>indexBuffer = Some 101, indexOffset = 0, vertexStartSlot = 0,
           vertexBuffers = [100], vertexOffsets = [0]\<rparr>]) \<and>
   cullable demo_store 3 = Some \<lparr>visible = True\<rparr> \<and>
   mesh demo_store 3 = Some \<lparr>mesh_material = 10, mesh_geometry = 21\<rparr> \<and>
   attributes demo_triangle = [] \<and>
   raised (render_mesh (find_materialSystem demo_systems) demo_camera 5 3 demo_store) = None \<and>
   filter is_bindVertexInputs
     (calls (render_mesh (find_materialSystem demo_systems) demo_camera 5 3 demo_store)) = []"
  using C9_vertex_inputs [of demo_store 2 "\<lparr>visible = True\<rparr>"
      "\<lparr>mesh_material = 10, mesh_geometry = 20\<rparr>" demo_material demo_indexed
      "find_materialSystem demo_systems" demo_camera 5 demo_systems
      "(0, \<lparr>scene_camera = 1, meshes = [2, 3, 4, 5, 6, 7]\<rparr>)" demo_camera]
    C9_vertex_inputs [of demo_store 3 "\<lparr>visible = True\<rparr>"
      "\<lparr>mesh_material = 10, mesh_geometry = 21\<rparr>" demo_material demo_triangle
      "find_materialSystem demo_systems" demo_camera 5]
  by (simp add: demo_lookups demo_components demo_mesh_2 demo_mesh_3 demo_attributes
      demo_camera_sel demo_raised demo_scene)

text \<open>
  C7 says that \<^verbatim>\<open>setUniform\<close> is invoked exactly once for every dirty uniform of the
  binding entries of the material of a drawn mesh, and never for a clean one. A push names
  the uniform, and the clearing of section 4.4 of the specification is by name: the material
  of the drawn mesh 3 below holds three entries named \<^verbatim>\<open>color\<close>, entry 2 dirty with
  data 9, entry 4 dirty with data 8 and entry 5 clean. The frame invokes \<^verbatim>\<open>setUniform\<close>
  once, for entry 2; that cleans entry 4, whose data is never pushed, and it is an
  invocation under the name of the clean entry 5 on its material.
\<close>

theorem C7_counterexample:
  "cullable twin_store 3 = Some \<lparr>visible = True\<rparr> \<and>
   mesh twin_store 3 = Some \<lparr>mesh_material = 10, mesh_geometry = 21\<rparr> \<and>
   material twin_store 10 = Some twin_material \<and> \<not> material_dirty twin_material \<and>
   geometry twin_store 21 = Some demo_triangle \<and> \<not> geometry_dirty demo_triangle \<and>
   uniforms twin_material = [[2, 4, 5]] \<and>
   uniform_objs twin_store 2 =
     \<lparr>uniform_name = ''color'', uniform_dirty = True, uniform_data = 9\<rparr> \<and>
   uniform_objs twin_store 4 =
     \<lparr>uniform_name = ''color'', uniform_dirty = True, uniform_data = 8\<rparr> \<and>
   uniform_objs twin_store 5 =
     \<lparr>uniform_name = ''color'', uniform_dirty = False, uniform_data = 8\<rparr> \<and>
   raised (render demo_systems twin_store) = None \<and>
   calls (render demo_systems twin_store) =
     [Clear black True True True,
      SetUniform 10 ''color'' 9 True,
      SetRenderBindGroups [200],
      DrawArraysType ''render-3-arrays'' (descriptor twin_material demo_triangle None) 0 3 4]"
  by (simp add: twin_lookups twin_raised twin_calls demo_components)

text \<open>
  C7, as amended. Take a drawn mesh, that is a mesh for which the frame holds a draw call,
  whether or not \<^verbatim>\<open>render\<close> completes the frame, and a uniform entry of the binding
  entries of its material whose name is not one of the two camera uniforms and is the name of
  no other entry of any material that holds the entry. The invocations of \<^verbatim>\<open>setUniform\<close>
  for the entry are those under its name on a material that holds it. If the dirty flag of
  the entry is false, there is none in the frame; if it is true, there is exactly one, with
  the data of the entry and the custom-value marker; in both cases the flag is false after
  the frame. The clearing is that of \<^verbatim>\<open>setUniform\<close> as the specification describes it.
\<close>

theorem C7_custom_uniforms:
  assumes "c \<in> set (calls (render systems s))" and "is_draw_of e c"
    and "mesh s e = Some m" and "material s (mesh_material m) = Some mat"
    and "x \<in> set (concat (uniforms mat))"
    and "uniform_name (uniform_objs s x) \<noteq> ''projectionMatrix''"
    and "uniform_name (uniform_objs s x) \<noteq> ''modelViewMatrix''"
    and "\<forall>ent. x \<in> set (material_uniforms s ent) \<longrightarrow>
           (\<forall>y \<in> set (material_uniforms s ent).
              uniform_name (uniform_objs s y) = uniform_name (uniform_objs s x) \<longrightarrow> y = x)"
  shows "(\<not> uniform_dirty (uniform_objs s x) \<longrightarrow>
            filter (is_push_of s x) (calls (render systems s)) = []) \<and>
         (uniform_dirty (uniform_objs s x) \<longrightarrow>
            (\<exists>ent. x \<in> set (material_uniforms s ent) \<and>
               filter (is_push_of s x) (calls (render systems s)) =
                 [SetUniform ent (uniform_name (uniform_objs s x))
                    (uniform_data (uniform_objs s x)) True])) \<and>
         \<not> uniform_dirty (uniform_objs (state (render systems s)) x)"
proof -
  have tr: "tracked s x"
    unfolding tracked_def using assms(6-8) by blast
  from assms(1,2) obtain m' mat' geo where d: "drawable s e m' mat' geo"
    by (blast dest: frame_draws_of)
  with assms(3) have "drawable s e m mat' geo"
    by (simp add: drawable_def)
  moreover from assms(4,5) have "x \<in> set (material_uniforms s (mesh_material m))"
    by (simp add: material_uniforms_def)
  ultimately have "uses s x e"
    unfolding uses_def by blast
  with assms(1,2) have "\<exists>c \<in> set (calls (render systems s)). drawn_with s x c"
    unfolding drawn_with_def by blast
  with render_entry [OF tr, of systems] show ?thesis
    by (auto simp: once_if_def the_push_def dirty_def)
qed

theorem C7_witness:
  "DrawElementsType ''render-2-elements''
     (descriptor demo_material demo_indexed (Some ''uint32'')) 0 6 1
     \<in> set (calls (render demo_systems demo_store)) \<and>
   is_draw_of 2 (DrawElementsType ''render-2-elements''
     (descriptor demo_material demo_indexed (Some ''uint32'')) 0 6 1) \<and>
   mesh demo_store 2 = Some \<lparr>mesh_material = 10, mesh_geometry = 20\<rparr> \<and>
   material demo_store 10 = Some demo_material \<and>
   concat (uniforms demo_material) = [0, 1, 2, 3] \<and>
   uniform_objs demo_store 2 =
     \<lparr>uniform_name = ''color'', uniform_dirty = True, uniform_data = 9\<rparr> \<and>
   filter (is_push_of demo_store 2) (calls (render demo_systems demo_store)) =
     [SetUniform 10 ''color'' 9 True] \<and>
   \<not> uniform_dirty (uniform_objs (state (render demo_systems demo_store)) 2) \<and>
   uniform_objs demo_store 3 =
     \<lparr>uniform_name = ''opacity'', uniform_dirty = False, uniform_data = 1\<rparr> \<and>
   filter (is_push_of demo_store 3) (calls (render demo_systems demo_store)) = [] \<and>
   \<not> uniform_dirty (uniform_objs (state (render demo_systems demo_store)) 3) \<and>
   raised (render demo_systems late_store) = Some TypeError \<and>
   DrawElementsType ''render-2-elements''
     (descriptor demo_material demo_indexed (Some ''uint32'')) 0 6 1
     \<in> set (calls (render demo_systems late_store)) \<and>
   mesh late_store 2 = Some \<lparr>mesh_material = 10, mesh_geometry = 20\<rparr> \<and>
   material late_store 10 = Some demo_material \<and>
   uniform_objs late_store 2 =
     \<lparr>uniform_name = ''color'', uniform_dirty = True, uniform_data = 9\<rparr> \<and>
   filter (is_push_of late_store 2) (calls (render demo_systems late_store)) =
     [SetUniform 10 ''color'' 9 True] \<and>
   \<not> uniform_dirty (uniform_objs (state (render demo_systems late_store)) 2)"
  using C7_custom_uniforms [of "DrawElementsType ''render-2-elements''
        (descriptor demo_material demo_indexed (Some ''uint32'')) 0 6 1"
      demo_systems demo_store 2 "\<lparr>mesh_material = 10, mesh_geometry = 20\<rparr>" demo_material 2]
    C7_custom_uniforms [of "DrawElementsType ''render-2-elements''
        (descriptor demo_material demo_indexed (Some ''uint32'')) 0 6 1"
      demo_systems demo_store 2 "\<lparr>mesh_material = 10, mesh_geometry = 20\<rparr>" demo_material 3]
    C7_custom_uniforms [of "DrawElementsType ''render-2-elements''
        (descriptor demo_material demo_indexed (Some ''uint32'')) 0 6 1"
      demo_systems late_store 2 "\<lparr>mesh_material = 10, mesh_geometry = 20\<rparr>" demo_material 2]
  by (simp add: demo_calls demo_labels demo_lookups demo_uniform_entries demo_holders
      late_calls late_raised late_lookups late_holders)

text \<open>
  C8. When \<^verbatim>\<open>render\<close> is invoked again on the store that an invocation has left, the
  second invocation makes the calls of the first, in the same order and with the same
  arguments, except the pushes with the custom-value marker, of which it makes none: in
  particular the draw calls are the same (labels, counts, instance counts), and an exception
  that ended the first frame ends the second at the same place. The clearing of the flags is
  that of \<^verbatim>\<open>setUniform\<close> as the specification describes it.
\<close>

theorem C8_render_twice:
  "calls (render systems (state (render systems s))) =
     filter (\<lambda>c. \<not> custom_push c) (calls (render systems s)) \<and>
   filter is_draw (calls (render systems (state (render systems s)))) =
     filter is_draw (calls (render systems s)) \<and>
   filter custom_push (calls (render systems (state (render systems s)))) = [] \<and>
   raised (render systems (state (render systems s))) = raised (render systems s)"
proof -
  have "\<And>c::'a call. is_draw c \<Longrightarrow> \<not> custom_push c"
    by (case_tac c) simp_all
  then have "filter is_draw (filter (\<lambda>c. \<not> custom_push c) (calls (render systems s))) =
      filter is_draw (calls (render systems s))"
    by (auto intro: filter_cong)
  then show ?thesis
    using replay_render [of systems s] by simp
qed

theorem C8_witness:
  "calls (render demo_systems (state (render demo_systems demo_store))) =
     [Clear black True True True,
      SetUniform 10 ''projectionMatrix'' 7 False,
      SetUniform 10 ''modelViewMatrix'' 15 False,
      SetRenderBindGroups [200],
      BindVertexInputs \<lparr>indexBuffer = Some 101, indexOffset = 0, vertexStartSlot = 0,
        vertexBuffers = [100], vertexOffsets = [0]\<rparr>,
      DrawElementsType ''render-2-elements''
        (descriptor demo_material demo_indexed (Some ''uint32'')) 0 6 1,
      SetRenderBindGroups [200],
      DrawArraysType ''render-3-arrays'' (descriptor demo_material demo_triangle None) 0 3 4] \<and>
   raised (render demo_systems (state (render demo_systems demo_store))) = None"
  using C8_render_twice [of demo_systems demo_store]
  by (simp add: demo_calls demo_raised)

end
